theory Spec2Isabelle
  imports Main "HOL-Library.Sublist"
begin

section \<open>JavaScript values, objects and strings\<close>

text \<open>
  The action runs as three Node processes (\<open>setup.js\<close>, \<open>verify.js\<close>, \<open>cleanup.js\<close>) that
  share the helpers of \<open>utils.js\<close>. Strings are lists of 8-bit characters. The values the
  program stores in its \<open>states\<close> and \<open>status\<close> objects are strings, numbers (exit codes,
  project numbers, response codes), booleans and \<open>undefined\<close>.
\<close>

type_synonym message = string

datatype jsval = JUndefined | JBool bool | JNum int | JStr string

definition dq :: char where
  "dq = CHR 0x22"

definition bsl :: char where
  "bsl = CHR 0x5C"

definition nl :: char where
  "nl = CHR 0x0A"

definition digit_char :: "nat \<Rightarrow> char" where
  "digit_char n = ''0123456789'' ! (n mod 10)"

function show_nat :: "nat \<Rightarrow> string" where
  "show_nat n = (if n < 10 then [digit_char n] else show_nat (n div 10) @ [digit_char n])"
  by pat_completeness auto
termination
  by (relation "measure (\<lambda>n. n)") auto

text \<open>A JavaScript integer number in a template string: decimal, with a sign when negative.\<close>

definition show_int :: "int \<Rightarrow> string" where
  "show_int i = (if i < 0 then CHR ''-'' # show_nat (nat (- i)) else show_nat (nat i))"

text \<open>\<open>`${v}`\<close>: the string a value turns into inside a template string.\<close>

fun js_toString :: "jsval \<Rightarrow> string" where
  "js_toString JUndefined = ''undefined''"
| "js_toString (JBool b) = (if b then ''true'' else ''false'')"
| "js_toString (JNum n) = show_int n"
| "js_toString (JStr s) = s"

definition is_digit :: "char \<Rightarrow> bool" where
  "is_digit c = (c \<in> set ''0123456789'')"

definition digit_val :: "char \<Rightarrow> nat" where
  "digit_val c = of_char c - 48"

text \<open>The number a string of decimal digits denotes (\<open>+matched[2]\<close>).\<close>

definition nat_of_digits :: "string \<Rightarrow> nat" where
  "nat_of_digits s = foldl (\<lambda>n c. 10 * n + digit_val c) 0 s"

fun upper_to_lower :: "char \<Rightarrow> char" where
  "upper_to_lower c =
     (if 65 \<le> (of_char c :: nat) \<and> (of_char c :: nat) \<le> 90 then char_of (of_char c + 32 :: nat) else c)"

definition toLowerCase :: "string \<Rightarrow> string" where
  "toLowerCase s = map upper_to_lower s"

subsection \<open>Objects\<close>

text \<open>
  A plain object is the list of its own properties in enumeration order, which is the
  order of \<open>for ... in\<close> and of \<open>Object.keys\<close>: the keys that are array indices first, in
  ascending numeric order, then the other keys in the order they were created.
\<close>

type_synonym jsobject = "(string \<times> jsval) list"

definition is_array_index :: "string \<Rightarrow> bool" where
  "is_array_index k =
     (k \<noteq> [] \<and> list_all is_digit k \<and> (k = ''0'' \<or> hd k \<noteq> CHR ''0'') \<and>
      int (nat_of_digits k) < 4294967295)"

text \<open>\<open>k in o\<close>, for the keys the program uses (none is a member of \<open>Object.prototype\<close>).\<close>

definition obj_has :: "jsobject \<Rightarrow> string \<Rightarrow> bool" where
  "obj_has ob k = (k \<in> set (map fst ob))"

text \<open>\<open>o[k]\<close>: \<open>undefined\<close> when the property is absent.\<close>

definition obj_get :: "jsobject \<Rightarrow> string \<Rightarrow> jsval" where
  "obj_get ob k = (case map_of ob k of Some v \<Rightarrow> v | None \<Rightarrow> JUndefined)"

fun obj_replace :: "string \<Rightarrow> jsval \<Rightarrow> jsobject \<Rightarrow> jsobject" where
  "obj_replace k v [] = []"
| "obj_replace k v ((k', v') # ps) =
     (if k' = k then (k, v) # ps else (k', v') # obj_replace k v ps)"

fun obj_add :: "string \<Rightarrow> jsval \<Rightarrow> jsobject \<Rightarrow> jsobject" where
  "obj_add k v [] = [(k, v)]"
| "obj_add k v ((k', v') # ps) =
     (if is_array_index k \<and> (\<not> is_array_index k' \<or> nat_of_digits k < nat_of_digits k')
      then (k, v) # (k', v') # ps
      else (k', v') # obj_add k v ps)"

text \<open>
  \<open>o[k] = v\<close> for a primitive \<open>v\<close>. An existing property keeps its place. The key
  \<open>__proto__\<close> that is not an own property reaches the setter of \<open>Object.prototype\<close>, which
  ignores a value that is neither an object nor \<open>null\<close>, so no property is created.
\<close>

definition obj_set :: "jsobject \<Rightarrow> string \<Rightarrow> jsval \<Rightarrow> jsobject" where
  "obj_set ob k v =
     (if obj_has ob k then obj_replace k v ob
      else if k = ''__proto__'' then ob
      else obj_add k v ob)"

subsection \<open>JSON text of a list of keys\<close>

text \<open>
  \<open>JSON.stringify\<close> on an array of strings: every string in double quotes, separated by
  commas, inside brackets. Inside the quotes the double quote, the backslash and the
  control characters are escaped.
\<close>

definition hex_char :: "nat \<Rightarrow> char" where
  "hex_char n = ''0123456789abcdef'' ! (n mod 16)"

definition quote_char :: "char \<Rightarrow> string" where
  "quote_char c =
     (if c = dq then [bsl, dq]
      else if c = bsl then [bsl, bsl]
      else if c = CHR 0x08 then [bsl, CHR ''b'']
      else if c = CHR 0x0C then [bsl, CHR ''f'']
      else if c = CHR 0x0A then [bsl, CHR ''n'']
      else if c = CHR 0x0D then [bsl, CHR ''r'']
      else if c = CHR 0x09 then [bsl, CHR ''t'']
      else if (of_char c :: nat) < 32
        then [bsl, CHR ''u'', CHR ''0'', CHR ''0'',
              hex_char ((of_char c :: nat) div 16), hex_char (of_char c :: nat)]
      else [c])"

definition quote_string :: "string \<Rightarrow> string" where
  "quote_string s = dq # concat (map quote_char s) @ [dq]"

fun join_commas :: "string list \<Rightarrow> string" where
  "join_commas [] = []"
| "join_commas [x] = x"
| "join_commas (x # y # ys) = x @ CHR '','' # join_commas (y # ys)"

definition JSON_stringify_keys :: "string list \<Rightarrow> string" where
  "JSON_stringify_keys ks = CHR ''['' # join_commas (map quote_string ks) @ '']''"

text \<open>
  \<open>JSON.parse\<close> on the texts the program gives it: the index entry, which only
  \<open>saveStates\<close> writes. The parser reads an array of string literals with the escapes of
  JSON; \<open>\<bsol>uXXXX\<close> is read when it denotes an 8-bit character. \<open>None\<close> is every other
  text: a syntax error, or a JSON value that is not an array of strings.
\<close>

definition hex_val :: "char \<Rightarrow> nat option" where
  "hex_val c =
     (let n = (of_char c :: nat) in
      if 48 \<le> n \<and> n \<le> 57 then Some (n - 48)
      else if 97 \<le> n \<and> n \<le> 102 then Some (n - 87)
      else if 65 \<le> n \<and> n \<le> 70 then Some (n - 55)
      else None)"

definition unhex4 :: "char \<Rightarrow> char \<Rightarrow> char \<Rightarrow> char \<Rightarrow> char option" where
  "unhex4 a b c d =
     (case (hex_val a, hex_val b, hex_val c, hex_val d) of
        (Some x, Some y, Some z, Some u) \<Rightarrow>
          (if x = 0 \<and> y = 0 then Some (char_of (16 * z + u)) else None)
      | _ \<Rightarrow> None)"

definition unescape :: "char \<Rightarrow> char option" where
  "unescape e =
     (if e = dq then Some dq
      else if e = bsl then Some bsl
      else if e = CHR ''/'' then Some CHR ''/''
      else if e = CHR ''b'' then Some (CHR 0x08)
      else if e = CHR ''f'' then Some (CHR 0x0C)
      else if e = CHR ''n'' then Some (CHR 0x0A)
      else if e = CHR ''r'' then Some (CHR 0x0D)
      else if e = CHR ''t'' then Some (CHR 0x09)
      else None)"

definition cons_result :: "char \<Rightarrow> (string \<times> string) option \<Rightarrow> (string \<times> string) option" where
  "cons_result c r = (case r of Some (k, rest) \<Rightarrow> Some (c # k, rest) | None \<Rightarrow> None)"

text \<open>The characters after an opening quote: the string they denote and what follows its
  closing quote.\<close>

fun parse_string_body :: "string \<Rightarrow> (string \<times> string) option" where
  "parse_string_body [] = None"
| "parse_string_body (c # cs) =
     (if c = dq then Some ([], cs)
      else if c = bsl then
        (case cs of
           [] \<Rightarrow> None
         | e # r \<Rightarrow>
             (if e = CHR ''u'' then
                (case r of
                   h1 # h2 # h3 # h4 # r' \<Rightarrow>
                     (case unhex4 h1 h2 h3 h4 of
                        Some ch \<Rightarrow> cons_result ch (parse_string_body r')
                      | None \<Rightarrow> None)
                 | _ \<Rightarrow> None)
              else
                (case unescape e of
                   Some ch \<Rightarrow> cons_result ch (parse_string_body r)
                 | None \<Rightarrow> None)))
      else if (of_char c :: nat) < 32 then None
      else cons_result c (parse_string_body cs))"

lemma parse_string_body_shorter:
  "parse_string_body s = Some (k, rest) \<Longrightarrow> length rest < length s"
proof (induction s arbitrary: k rest rule: parse_string_body.induct)
  case 1
  then show ?case by simp
next
  case (2 c cs)
  then show ?case
    by (fastforce simp: cons_result_def split: if_splits list.splits option.splits)
qed

function parse_elements :: "string \<Rightarrow> string list option" where
  "parse_elements s =
     (case s of
        [] \<Rightarrow> None
      | c # cs \<Rightarrow>
          (if c = dq then
             (case parse_string_body cs of
                None \<Rightarrow> None
              | Some (k, rest) \<Rightarrow>
                  (case rest of
                     [] \<Rightarrow> None
                   | d # rest' \<Rightarrow>
                       (if d = CHR '','' then map_option ((#) k) (parse_elements rest')
                        else if d = CHR '']'' \<and> rest' = [] then Some [k]
                        else None)))
           else None))"
  by pat_completeness auto
termination
  by (relation "measure length") (auto dest: parse_string_body_shorter)

declare parse_elements.simps [simp del]

definition JSON_parse_keys :: "string \<Rightarrow> string list option" where
  "JSON_parse_keys s =
     (case s of
        [] \<Rightarrow> None
      | c # cs \<Rightarrow>
          (if c = CHR ''['' then (if cs = '']'' then Some [] else parse_elements cs)
           else None))"

section \<open>The process, its log and the durable state\<close>

text \<open>
  What a phase does to the outside is recorded as a list of events, oldest first: the
  commands it executes, the state entries it writes, the styled lines of \<open>showError\<close>,
  \<open>showSuccess\<close> and \<open>showWarning\<close>, the annotations of \<open>core.warning\<close> and
  \<open>core.setFailed\<close>, and the calls to the cache, the artifact store and the hosting API.
  The plain log lines (\<open>core.info\<close>, \<open>startGroup\<close>, \<open>endGroup\<close>, \<open>showTitle\<close>) change
  nothing the program reads and are left out.
\<close>

datatype event =
    Exec string "string list" "string option"
  | SaveState string string
  | ShowError string
  | ShowSuccess string
  | ShowWarning string
  | CoreWarning string
  | SetFailed string
  | ListCommits string string
  | RestoreCache "string list" string "string list"
  | SaveCache "string list" jsval
  | Glob string
  | UploadArtifact string "string list" string
  | GetReleaseByTag string string jsval
  | UpdateRelease string string int string

text \<open>
  A process holds the module variable \<open>exports.warnings\<close>, the state entries it was
  started with (\<open>core.getState\<close> reads them), the entries it has written
  (\<open>core.saveState\<close>), its events, and the two objects \<open>states\<close> and \<open>status\<close> of \<open>run\<close>.
\<close>

record process =
  warnings :: nat
  state_env :: "string \<rightharpoonup> string"
  saved :: "string \<rightharpoonup> string"
  trace :: "event list"
  states :: jsobject
  status :: jsobject

text \<open>A process starts with \<open>exports.warnings = 0\<close>, \<open>status = {}\<close> and \<open>states = {}\<close>.\<close>

definition new_process :: "(string \<rightharpoonup> string) \<Rightarrow> process" where
  "new_process env =
     \<lparr>warnings = 0, state_env = env, saved = Map.empty, trace = [], states = [], status = []\<rparr>"

text \<open>The entries the next process of the run is started with.\<close>

definition next_env :: "process \<Rightarrow> (string \<rightharpoonup> string)" where
  "next_env p = state_env p ++ saved p"

definition emit :: "event \<Rightarrow> process \<Rightarrow> process" where
  "emit e p = p\<lparr>trace := trace p @ [e]\<rparr>"

text \<open>
  \<open>core.saveState(name, value)\<close> writes the value as a string: a string as it is,
  \<open>undefined\<close> as the empty string, a number or a boolean as its JSON text.
\<close>

fun toCommandValue :: "jsval \<Rightarrow> string" where
  "toCommandValue JUndefined = []"
| "toCommandValue (JStr s) = s"
| "toCommandValue (JBool b) = (if b then ''true'' else ''false'')"
| "toCommandValue (JNum n) = show_int n"

definition saveState :: "string \<Rightarrow> jsval \<Rightarrow> process \<Rightarrow> process" where
  "saveState name v p =
     emit (SaveState name (toCommandValue v))
       (p\<lparr>saved := (saved p)(name \<mapsto> toCommandValue v)\<rparr>)"

text \<open>\<open>core.getState(name)\<close>: the empty string when there is no entry.\<close>

definition getState :: "process \<Rightarrow> string \<Rightarrow> string" where
  "getState p name = (case state_env p name of Some v \<Rightarrow> v | None \<Rightarrow> [])"

definition set_states :: "string \<Rightarrow> jsval \<Rightarrow> process \<Rightarrow> process" where
  "set_states k v p = p\<lparr>states := obj_set (states p) k v\<rparr>"

definition set_status :: "string \<Rightarrow> jsval \<Rightarrow> process \<Rightarrow> process" where
  "set_status k v p = p\<lparr>status := obj_set (status p) k v\<rparr>"

subsection \<open>Steps that may throw\<close>

text \<open>
  A step runs on the process and either returns a value or throws an \<open>Error\<close> with a
  message; the process it leaves behind is kept in both cases, for \<open>catch\<close> and \<open>finally\<close>.
\<close>

type_synonym 'a step = "process \<Rightarrow> (message + 'a) \<times> process"

definition done_with :: "'a \<Rightarrow> 'a step" where
  "done_with x p = (Inr x, p)"

definition throw :: "message \<Rightarrow> 'a step" where
  "throw m p = (Inl m, p)"

definition then_do :: "'a step \<Rightarrow> ('a \<Rightarrow> 'b step) \<Rightarrow> 'b step" where
  "then_do m f p = (case m p of (Inl e, p') \<Rightarrow> (Inl e, p') | (Inr x, p') \<Rightarrow> f x p')"

text \<open>A statement that cannot throw.\<close>

definition effect :: "(process \<Rightarrow> process) \<Rightarrow> unit step" where
  "effect f p = (Inr (), f p)"

text \<open>A step that reads the variables of the process as they are when it starts.\<close>

definition reading :: "(process \<Rightarrow> 'a step) \<Rightarrow> 'a step" where
  "reading F p = F p p"

text \<open>
  A call to the platform: it is recorded, and its outcome is what the platform gives
  after the events so far.
\<close>

definition call :: "event \<Rightarrow> (event list \<Rightarrow> message + 'a) \<Rightarrow> 'a step" where
  "call e outcome p =
     (case outcome (trace p) of
        Inl m \<Rightarrow> (Inl m, emit e p)
      | Inr x \<Rightarrow> (Inr x, emit e p))"

text \<open>\<open>try { ... } catch (error) { throw new Error(f(error.message)) }\<close>\<close>

definition rethrow :: "(message \<Rightarrow> message) \<Rightarrow> 'a step \<Rightarrow> 'a step" where
  "rethrow f m p = (case m p of (Inl e, p') \<Rightarrow> (Inl (f e), p') | (Inr x, p') \<Rightarrow> (Inr x, p'))"

text \<open>\<open>try { ... } catch (error) { ... }\<close> with a handler that does not throw.\<close>

definition try_catch :: "unit step \<Rightarrow> (message \<Rightarrow> process \<Rightarrow> process) \<Rightarrow> process \<Rightarrow> process" where
  "try_catch body handler p =
     (case body p of (Inl e, p') \<Rightarrow> handler e p' | (Inr _, p') \<Rightarrow> p')"

section \<open>utils.js\<close>

definition mainDir :: string where
  "mainDir = ''project-main''"

definition testDir :: string where
  "testDir = ''project-tests''"

text \<open>
  What the process meets outside: its inputs, the context of the workflow run, and the
  outcome of every call it makes to the platform. An outcome may depend on everything
  the process has done before (its events) and on the arguments of the call; \<open>Inl\<close> is a
  call that throws, with the message of the error.
\<close>

record world =
  token :: string
  project_input :: string
  ctx_owner :: string
  ctx_repo :: string
  ctx_ref :: string
  ctx_runNumber :: int
  ctx_runId :: int
  exec_exec :: "event list \<Rightarrow> string \<Rightarrow> string list \<Rightarrow> string option \<Rightarrow> message + int"
  listCommits :: "event list \<Rightarrow> string \<Rightarrow> string \<Rightarrow> message + string"
  restoreCache :: "event list \<Rightarrow> string list \<Rightarrow> string \<Rightarrow> string list \<Rightarrow> message + string option"
  saveCache :: "event list \<Rightarrow> string list \<Rightarrow> jsval \<Rightarrow> message + int"
  glob_files :: "event list \<Rightarrow> string \<Rightarrow> message + string list"
  uploadArtifact :: "event list \<Rightarrow> string \<Rightarrow> string list \<Rightarrow> string \<Rightarrow> message + string list \<times> int"
  getReleaseByTag :: "event list \<Rightarrow> string \<Rightarrow> string \<Rightarrow> jsval \<Rightarrow> message + int \<times> int"
  updateRelease :: "event list \<Rightarrow> string \<Rightarrow> string \<Rightarrow> int \<Rightarrow> string \<Rightarrow> message + int"

text \<open>The \<open>settings\<close> object of \<open>checkExec\<close>: each property may be absent.\<close>

record settings =
  param :: "string list option"
  title :: "string option"
  error :: "string option"
  chdir :: "string option"

text \<open>
  \<open>checkExec\<close> runs the command with \<open>ignoreReturnCode\<close>, so \<open>exec.exec\<close> resolves to the
  exit code whatever it is, and throws only when the command cannot be run at all.
\<close>

definition checkExec :: "world \<Rightarrow> string \<Rightarrow> settings \<Rightarrow> int step" where
  "checkExec w command s =
     (let cwd = chdir s;
          prm = (case param s of Some ps \<Rightarrow> ps | None \<Rightarrow> [])
      in
      then_do (call (Exec command prm cwd) (\<lambda>h. exec_exec w h command prm cwd)) (\<lambda>result.
        case error s of
          Some msg \<Rightarrow>
            (if result \<noteq> 0 then throw (msg @ '' ('' @ show_int result @ '').'')
             else done_with result)
        | None \<Rightarrow> done_with result))"

fun save_each :: "jsobject \<Rightarrow> process \<Rightarrow> process" where
  "save_each [] p = p"
| "save_each ((state, v) # rest) p = save_each rest (saveState state v p)"

definition saveStates :: "jsobject \<Rightarrow> process \<Rightarrow> process" where
  "saveStates sts p =
     saveState ''keys'' (JStr (JSON_stringify_keys (map fst sts))) (save_each sts p)"

fun restore_each :: "process \<Rightarrow> string list \<Rightarrow> jsobject \<Rightarrow> jsobject" where
  "restore_each p [] sts = sts"
| "restore_each p (key # keys) sts = restore_each p keys (obj_set sts key (JStr (getState p key)))"

text \<open>
  \<open>restoreStates\<close> changes the object it is given and returns it; it throws, before any
  change, when \<open>JSON.parse\<close> does.
\<close>

definition restoreStates :: "jsobject \<Rightarrow> process \<Rightarrow> message + jsobject" where
  "restoreStates sts p =
     (let input = getState p ''keys'' in
      if input \<noteq> [] then
        (case JSON_parse_keys input of
           Some keys \<Rightarrow> Inr (restore_each p keys sts)
         | None \<Rightarrow> Inl ''Unexpected token in JSON'')
      else Inr sts)"

definition showError :: "string \<Rightarrow> process \<Rightarrow> process" where
  "showError text p = emit (ShowError text) p"

definition showSuccess :: "string \<Rightarrow> process \<Rightarrow> process" where
  "showSuccess text p = emit (ShowSuccess text) p"

definition showWarning :: "string \<Rightarrow> process \<Rightarrow> process" where
  "showWarning text p = emit (ShowWarning text) (p\<lparr>warnings := warnings p + 1\<rparr>)"

definition checkWarnings :: "string \<Rightarrow> process \<Rightarrow> process" where
  "checkWarnings phase p =
     (if warnings p > 1 then
        emit (CoreWarning (''There were '' @ show_nat (warnings p) @ '' warnings in the '' @
                phase @ '' phase. View the run log for details.'')) p
      else if warnings p = 1 then
        emit (CoreWarning (''There was '' @ show_nat (warnings p) @ '' warning in the '' @
                phase @ '' phase. View the run log for details.'')) p
      else p)"

section \<open>setup.js\<close>

text \<open>\<open>ref.split('/')\<close> and its last token.\<close>

fun split_on :: "char \<Rightarrow> string \<Rightarrow> string list" where
  "split_on c [] = [[]]"
| "split_on c (x # xs) =
     (if x = c then [] # split_on c xs
      else (case split_on c xs of t # ts \<Rightarrow> (x # t) # ts | [] \<Rightarrow> [[x]]))"

definition last_token :: "string \<Rightarrow> string" where
  "last_token ref = last (split_on CHR ''/'' ref)"

text \<open>
  The match of \<open>/^v([1-4])\<bsol>.(\<bsol>d+)\<bsol>.(\<bsol>d+)$/\<close>: the three groups, or \<open>None\<close> for \<open>null\<close>.
\<close>

definition match_version :: "string \<Rightarrow> (string \<times> string \<times> string) option" where
  "match_version version =
     (case version of
        c0 # c1 # c2 # rest \<Rightarrow>
          (if c0 = CHR ''v'' \<and> c1 \<in> set ''1234'' \<and> c2 = CHR ''.'' then
             (let minor = takeWhile is_digit rest;
                  after = dropWhile is_digit rest
              in case after of
                   [] \<Rightarrow> None
                 | d # patch \<Rightarrow>
                     (if minor \<noteq> [] \<and> d = CHR ''.'' \<and> patch \<noteq> [] \<and> list_all is_digit patch
                      then Some ([c1], minor, patch)
                      else None))
           else None)
      | _ \<Rightarrow> None)"

definition valid_projects :: "string list" where
  "valid_projects = [''1'', ''2'', ''3a'', ''3b'', ''4'']"

definition setup_parse_details :: "world \<Rightarrow> unit step" where
  "setup_parse_details w =
     (let owner = ctx_owner w;
          repo = ctx_repo w;
          version = last_token (ctx_ref w)
      in
      then_do (effect (set_states ''owner'' (JStr owner))) (\<lambda>_.
      then_do (effect (set_states ''mainRepo'' (JStr (owner @ ''/'' @ repo)))) (\<lambda>_.
      then_do (effect (set_states ''testRepo'' (JStr (owner @ ''/'' @ testDir)))) (\<lambda>_.
      then_do (effect (set_states ''project'' (JStr ''*''))) (\<lambda>_.
      then_do
        (case match_version version of
           Some (m1, m2, m3) \<Rightarrow>
             then_do (effect (set_states ''project'' (JNum (int (nat_of_digits m1))))) (\<lambda>_.
             reading (\<lambda>q.
               if obj_get (states q) ''project'' = JNum 3
               then effect (set_states ''project''
                      (if nat_of_digits m2 = 0 then JStr ''3a'' else JStr ''3b''))
               else done_with ()))
         | None \<Rightarrow>
             (let project = project_input w in
              if project \<noteq> [] \<and> project \<in> set valid_projects
              then effect (set_states ''project'' (JStr project))
              else throw (''Unable to determine project from '' @ version @
                     '' or user input. Double check release is properly named (with a lowercase '' @
                     [dq] @ ''v'' @ [dq] @ '' at the start).''))) (\<lambda>_.
      then_do (effect (set_states ''version'' (JStr version))) (\<lambda>_.
      reading (\<lambda>q.
        effect (set_states ''tester''
          (JStr (''Project'' @ js_toString (obj_get (states q) ''project'') @ ''Test*'')))))))))))"

definition setup_clone_main :: "world \<Rightarrow> unit step" where
  "setup_clone_main w =
     reading (\<lambda>q.
       let version = js_toString (obj_get (states q) ''version'');
           mainRepo = js_toString (obj_get (states q) ''mainRepo'')
       in
       then_do (checkExec w ''git''
         \<lparr>param = Some [''clone'', ''--depth'', ''1'', ''-c'', ''advice.detachedHead=false'',
                   ''--no-tags'', ''--branch'', version,
                   ''https://github-actions:'' @ token w @ ''@github.com/'' @ mainRepo, mainDir],
          title = Some (''Cloning '' @ version @ '' from '' @ mainRepo @ '' into '' @ mainDir),
          error = Some (''Failed cloning '' @ mainRepo @ '' repository''),
          chdir = None\<rparr>) (\<lambda>r.
       then_do (effect (set_status ''mainClone'' (JNum r))) (\<lambda>_.
       then_do (checkExec w ''ls''
         \<lparr>param = Some [''-m'', mainDir @ ''/src/main/java''],
          title = Some ''Listing project main code'',
          error = Some ''Unable to list main directory'',
          chdir = None\<rparr>) (\<lambda>_.
       done_with ()))))"

text \<open>\<open>!v\<close> is true for \<open>undefined\<close>, the empty string, \<open>0\<close> and \<open>false\<close>.\<close>

fun js_falsy :: "jsval \<Rightarrow> bool" where
  "js_falsy JUndefined = True"
| "js_falsy (JStr s) = (s = [])"
| "js_falsy (JNum n) = (n = 0)"
| "js_falsy (JBool b) = (\<not> b)"

text \<open>The commands of the test repository that the cache decides on.\<close>

definition git_status_command :: settings where
  "git_status_command =
     \<lparr>param = Some [''status''],
      title = Some (''Checking '' @ testDir @ '' git status''),
      error = Some (''Unable to check '' @ testDir @ '' git status''),
      chdir = Some (testDir @ ''/'')\<rparr>"

definition git_pull_command :: settings where
  "git_pull_command =
     \<lparr>param = Some [''pull'', ''--ff-only''],
      title = Some (''Pulling latest '' @ testDir @ '' version''),
      error = Some (''Unable to pull latest '' @ testDir @ '' version''),
      chdir = Some (testDir @ ''/'')\<rparr>"

definition test_clone_command :: "string \<Rightarrow> string \<Rightarrow> settings" where
  "test_clone_command tok testRepo =
     \<lparr>param = Some [''clone'', ''--depth'', ''1'', ''--no-tags'',
               ''https://github-actions:'' @ tok @ ''@github.com/'' @ testRepo, testDir],
      title = Some (''Cloning '' @ testRepo @ '' into '' @ testDir),
      error = Some (''Failed cloning '' @ testRepo @ '' repository''),
      chdir = None\<rparr>"

definition setup_test_cache :: "world \<Rightarrow> unit step" where
  "setup_test_cache w =
     then_do (reading (\<lambda>q.
       let owner = js_toString (obj_get (states q) ''owner'') in
       rethrow (\<lambda>m. ''Unable to list '' @ testDir @ '' commits ('' @ toLowerCase m @ '').'')
         (then_do (call (ListCommits owner testDir) (\<lambda>h. listCommits w h owner testDir)) (\<lambda>hash.
          effect (set_states ''testKey'' (JStr (testDir @ ''-'' @ hash))))))) (\<lambda>_.
     then_do (reading (\<lambda>q.
       let testKey = js_toString (obj_get (states q) ''testKey'') in
       then_do (call (RestoreCache [testDir] testKey [testDir @ ''-''])
                  (\<lambda>h. restoreCache w h [testDir] testKey [testDir @ ''-''])) (\<lambda>found.
       effect (set_status ''testCache''
         (case found of Some k \<Rightarrow> JStr k | None \<Rightarrow> JUndefined))))) (\<lambda>_.
     then_do (reading (\<lambda>q.
       effect (set_states ''testCache'' (obj_get (status q) ''testCache'')))) (\<lambda>_.
     then_do (reading (\<lambda>q.
       if obj_get (status q) ''testCache'' \<noteq> JUndefined \<and>
          obj_get (states q) ''testKey'' \<noteq> obj_get (states q) ''testCache''
       then
         then_do (checkExec w ''git'' git_status_command) (\<lambda>_.
         then_do (checkExec w ''git'' git_pull_command) (\<lambda>_.
         done_with ()))
       else done_with ())) (\<lambda>_.
     reading (\<lambda>q.
       if js_falsy (obj_get (status q) ''testCache'')
       then effect (showWarning
              (''Unable to restore cache: '' @ js_toString (obj_get (states q) ''testKey'')))
       else done_with ())))))"

definition setup_clone_tests :: "world \<Rightarrow> unit step" where
  "setup_clone_tests w =
     reading (\<lambda>q.
       if obj_get (status q) ''testCache'' = JUndefined then
         then_do (checkExec w ''git''
           (test_clone_command (token w) (js_toString (obj_get (states q) ''testRepo'')))) (\<lambda>r.
         then_do (effect (set_status ''testClone'' (JNum r))) (\<lambda>_.
         then_do (checkExec w ''ls''
           \<lparr>param = Some [''-m'', testDir @ ''/src/test/java''],
            title = Some ''Listing project test code'',
            error = Some ''Unable to list test directory'',
            chdir = None\<rparr>) (\<lambda>_.
         done_with ())))
       else done_with ())"

definition setup_check_directory :: "world \<Rightarrow> unit step" where
  "setup_check_directory w =
     then_do (checkExec w ''ls''
       \<lparr>param = Some [''-Rm'', ''.''],
        title = Some ''Listing project directory'',
        error = Some ''Unable to list project directory'',
        chdir = None\<rparr>) (\<lambda>_.
     done_with ())"

text \<open>The \<open>try\<close> block of \<open>run\<close>: the five groups, then \<open>utils.saveStates(states)\<close>.\<close>

definition setup_groups :: "world \<Rightarrow> unit step" where
  "setup_groups w =
     then_do (setup_parse_details w) (\<lambda>_.
     then_do (setup_clone_main w) (\<lambda>_.
     then_do (setup_test_cache w) (\<lambda>_.
     then_do (setup_clone_tests w) (\<lambda>_.
     setup_check_directory w))))"

definition setup_try :: "world \<Rightarrow> unit step" where
  "setup_try w =
     then_do (setup_groups w) (\<lambda>_.
     reading (\<lambda>q. effect (saveStates (states q))))"

definition setFailed :: "string \<Rightarrow> process \<Rightarrow> process" where
  "setFailed m p = emit (SetFailed m) p"

definition setup_catch :: "message \<Rightarrow> process \<Rightarrow> process" where
  "setup_catch e p = setFailed (''Setup failed. '' @ e) (showError (''Error: '' @ e @ [nl]) p)"

definition setup_label :: string where
  "setup_label = [dq] @ ''Pre Test Project'' @ [dq]"

text \<open>\<open>run\<close> of setup.js: \<open>try\<close>, \<open>catch\<close>, and \<open>checkWarnings\<close> in \<open>finally\<close>.\<close>

definition run_setup :: "world \<Rightarrow> (string \<rightharpoonup> string) \<Rightarrow> process" where
  "run_setup w env =
     checkWarnings setup_label (try_catch (setup_try w) setup_catch (new_process env))"

section \<open>verify.js\<close>

definition verify_restore :: "unit step" where
  "verify_restore =
     reading (\<lambda>q.
       case restoreStates (states q) q of
         Inr sts \<Rightarrow> effect (\<lambda>p. p\<lparr>states := sts\<rparr>)
       | Inl m \<Rightarrow> throw m)"

definition verify_environment :: "world \<Rightarrow> unit step" where
  "verify_environment w =
     then_do (checkExec w ''java''
       \<lparr>param = Some [''--version''],
        title = Some ''Displaying Java runtime version'',
        error = Some ''Unable to display Java runtime version'',
        chdir = None\<rparr>) (\<lambda>_.
     then_do (checkExec w ''javac''
       \<lparr>param = Some [''--version''],
        title = Some ''Displaying Java compiler version'',
        error = Some ''Unable to display Java compiler version'',
        chdir = None\<rparr>) (\<lambda>_.
     then_do (checkExec w ''mvn''
       \<lparr>param = Some [''--version''],
        title = Some ''Displaying Maven version'',
        error = Some ''Unable to display Maven version'',
        chdir = None\<rparr>) (\<lambda>_.
     done_with ())))"

definition verify_dependencies :: "world \<Rightarrow> unit step" where
  "verify_dependencies w =
     then_do (checkExec w ''mvn''
       \<lparr>param = Some [''-f'', mainDir @ ''/pom.xml'', ''-ntp'', ''dependency:go-offline''],
        title = None,
        error = Some ''Updating returned non-zero exit code'',
        chdir = None\<rparr>) (\<lambda>r.
     effect (set_status ''maven'' (JNum r)))"

definition verify_compile_main :: "world \<Rightarrow> unit step" where
  "verify_compile_main w =
     then_do (checkExec w ''mvn''
       \<lparr>param = Some [''-ntp'', ''-DcompileOptionXlint=-Xlint:all'',
                 ''-DcompileOptionXdoclint=-Xdoclint:all/private'',
                 ''-Dmaven.compiler.showWarnings=true'', ''-DcompileOptionFail=true'', ''compile''],
        title = Some ''Compiling project main code (with warnings enabled)'',
        error = None,
        chdir = Some (mainDir @ ''/'')\<rparr>) (\<lambda>r.
     then_do (effect (set_status ''mainWarnings'' (JNum r))) (\<lambda>_.
     then_do (checkExec w ''mvn''
       \<lparr>param = Some [''-ntp'', ''-DcompileOptionXlint=-Xlint:none'',
                 ''-DcompileOptionXdoclint=-Xdoclint:none'',
                 ''-Dmaven.compiler.showWarnings=false'', ''-DcompileOptionFail=false'',
                 ''clean'', ''compile''],
        title = Some ''Recompiling project main code (with warnings disabled)'',
        error = Some ''Recompiling returned non-zero exit code'',
        chdir = Some (mainDir @ ''/'')\<rparr>) (\<lambda>r.
     then_do (effect (set_status ''mainCompile'' (JNum r))) (\<lambda>_.
     then_do (reading (\<lambda>q.
       if obj_get (status q) ''mainWarnings'' \<noteq> JNum 0
       then effect (emit (CoreWarning
              ''Unable to compile code without warnings. This will not cause the tests to fail, but the warnings must be fixed before requesting code review.''))
       else done_with ())) (\<lambda>_.
     then_do (checkExec w ''ls''
       \<lparr>param = Some [''-m'', mainDir @ ''/target/classes''],
        title = Some ''Listing main class files'',
        error = Some ''Unable to list main class directory'',
        chdir = None\<rparr>) (\<lambda>_.
     done_with ()))))))"

definition verify_compile_tests :: "world \<Rightarrow> unit step" where
  "verify_compile_tests w =
     then_do (checkExec w ''mvn''
       \<lparr>param = Some [''-ntp'', [dq] @ ''-DcompileOptionXlint=-Xlint:none'' @ [dq],
                 [dq] @ ''-DcompileOptionXdoclint=-Xdoclint:none'' @ [dq],
                 ''-DcompileOptionFail=false'', ''-Dmaven.compiler.failOnWarning=false'',
                 ''-Dmaven.compiler.showWarnings=false'', ''test-compile''],
        title = Some ''Compiling project test code'',
        error = Some ''Compiling returned non-zero exit code'',
        chdir = Some (mainDir @ ''/'')\<rparr>) (\<lambda>r.
     then_do (effect (set_status ''testCompile'' (JNum r))) (\<lambda>_.
     then_do (checkExec w ''ls''
       \<lparr>param = Some [''-m'', mainDir @ ''/target/test-classes''],
        title = Some ''Listing test class files'',
        error = Some ''Unable to list test class directory'',
        chdir = None\<rparr>) (\<lambda>_.
     done_with ())))"

text \<open>The verification tests, and the debug tests that follow when they do not pass.\<close>

definition verify_command :: "string \<Rightarrow> settings" where
  "verify_command tester =
     \<lparr>param = Some [''-ntp'', ''-Dtest='' @ tester, ''-DexcludedGroups=none()|!verify'', ''test''],
      title = Some ''Running verification tests'',
      error = None,
      chdir = Some (mainDir @ ''/'')\<rparr>"

definition debug_command :: "string \<Rightarrow> settings" where
  "debug_command tester =
     \<lparr>param = Some [''-ntp'', ''-Dtest='' @ tester, ''-DexcludedGroups=verify'', ''test''],
      title = Some ''Running debug tests'',
      error = None,
      chdir = Some (mainDir @ ''/'')\<rparr>"

definition verify_message :: "bool \<Rightarrow> string \<Rightarrow> string \<Rightarrow> string" where
  "verify_message passed project version =
     (if passed
      then ''All Project '' @ project @ '' verification tests of '' @ version @ '' passed!''
      else ''One or more Project '' @ project @ '' verification tests of '' @ version @ '' failed.'')"

definition verify_tests :: "world \<Rightarrow> unit step" where
  "verify_tests w =
     reading (\<lambda>q.
       let tester = js_toString (obj_get (states q) ''tester'');
           project = js_toString (obj_get (states q) ''project'');
           version = js_toString (obj_get (states q) ''version'')
       in
       then_do (checkExec w ''mvn'' (verify_command tester)) (\<lambda>r.
       then_do (effect (set_status ''verify'' (JNum r))) (\<lambda>_.
       then_do (effect (set_states ''passed'' (JBool (r = 0)))) (\<lambda>_.
       then_do (effect (set_states ''message''
                  (JStr (verify_message (r = 0) project version)))) (\<lambda>_.
       reading (\<lambda>q'.
         if obj_get (states q') ''passed'' \<noteq> JBool True then
           then_do (checkExec w ''mvn'' (debug_command tester)) (\<lambda>d.
           then_do (effect (set_status ''debug'' (JNum d))) (\<lambda>_.
           reading (\<lambda>q''. throw (js_toString (obj_get (states q'') ''message'')))))
         else effect (showSuccess (js_toString (obj_get (states q') ''message'')))))))))"

text \<open>
  The \<open>try\<close> block of \<open>run\<close>: the groups of the part titled Verification Setup Phase, then
  those of the Verification Testing Phase.
\<close>

definition verify_prepare :: "world \<Rightarrow> unit step" where
  "verify_prepare w =
     then_do verify_restore (\<lambda>_.
     then_do (verify_environment w) (\<lambda>_.
     then_do (verify_dependencies w) (\<lambda>_.
     then_do (verify_compile_main w) (\<lambda>_.
     verify_compile_tests w))))"

definition verify_try :: "world \<Rightarrow> unit step" where
  "verify_try w = then_do (verify_prepare w) (\<lambda>_. verify_tests w)"

definition verify_catch :: "message \<Rightarrow> process \<Rightarrow> process" where
  "verify_catch e p = setFailed (''Unable to verify project. '' @ e) (showError (e @ [nl]) p)"

definition verify_label :: string where
  "verify_label = [dq] @ ''Test Project'' @ [dq]"

text \<open>\<open>run\<close> of verify.js: \<open>saveStates\<close> and \<open>checkWarnings\<close> are in \<open>finally\<close>.\<close>

definition run_verify :: "world \<Rightarrow> (string \<rightharpoonup> string) \<Rightarrow> process" where
  "run_verify w env =
     (let p = try_catch (verify_try w) verify_catch (new_process env)
      in checkWarnings verify_label (saveStates (states p) p))"

section \<open>cleanup.js\<close>

fun join_items :: "string list \<Rightarrow> string" where
  "join_items [] = []"
| "join_items [x] = x"
| "join_items (x # y # ys) = x @ '', '' @ join_items (y # ys)"

text \<open>
  An upload: the call, then the check of the items that failed. The response is also
  assigned to \<open>status\<close>, which only the log reads; \<open>status\<close> keeps the exit codes, the
  cache keys and the response codes here.
\<close>

definition upload :: "world \<Rightarrow> string \<Rightarrow> string list \<Rightarrow> unit step" where
  "upload w name files =
     then_do (call (UploadArtifact name files ''.'') (\<lambda>h. uploadArtifact w h name files ''.''))
       (\<lambda>(failedItems, bytes).
          if length failedItems \<noteq> 0
          then throw (''Failed to upload: '' @ join_items failedItems @ ''.'')
          else done_with ())"

text \<open>The first command of the group that generates the test reports.\<close>

definition reports_command :: settings where
  "reports_command =
     \<lparr>param = Some [''-ntp'', ''surefire-report:report-only''],
      title = Some ''Generating reports'',
      error = Some ''Unable to generate reports'',
      chdir = Some (mainDir @ ''/'')\<rparr>"

definition cleanup_reports :: "world \<Rightarrow> unit step" where
  "cleanup_reports w =
     then_do (checkExec w ''mvn'' reports_command) (\<lambda>r.
     then_do (effect (set_status ''reports'' (JNum r))) (\<lambda>_.
     then_do (checkExec w ''mvn''
       \<lparr>param = Some [''-ntp'', ''-DgenerateReports=false'', ''site''],
        title = Some ''Generating report site'',
        error = Some ''Unable to generate report site'',
        chdir = Some (mainDir @ ''/'')\<rparr>) (\<lambda>r.
     then_do (effect (set_status ''site'' (JNum r))) (\<lambda>_.
     then_do (checkExec w ''ls''
       \<lparr>param = Some [''-m'', mainDir @ ''/target/site''],
        title = Some ''Listing project report site'',
        error = Some ''Unable to list site directory'',
        chdir = None\<rparr>) (\<lambda>_.
     then_do (checkExec w ''zip''
       \<lparr>param = Some [''-r'', ''../../results.zip'', ''site''],
        title = Some ''Zipping test report site'',
        error = Some ''Unable to zip test report site'',
        chdir = Some (mainDir @ ''/target/'')\<rparr>) (\<lambda>r.
     then_do (effect (set_status ''siteZip'' (JNum r))) (\<lambda>_.
     then_do (checkExec w ''ls''
       \<lparr>param = Some [''-l'', ''.''],
        title = Some ''Listing working directory'',
        error = Some ''Unable to list working directory'',
        chdir = None\<rparr>) (\<lambda>_.
     upload w ''Test Reports'' [''results.zip'']))))))))"

definition cleanup_actual :: "world \<Rightarrow> unit step" where
  "cleanup_actual w =
     then_do (call (Glob (testDir @ ''/actual/*'')) (\<lambda>h. glob_files w h (testDir @ ''/actual/*'')))
       (\<lambda>found.
          if length found > 0 then
            then_do (checkExec w ''zip''
              \<lparr>param = Some [''-r'', ''../actual.zip'', ''actual''],
               title = Some ''Zipping actual output files'',
               error = Some ''Unable to zip actual output files'',
               chdir = Some (testDir @ ''/'')\<rparr>) (\<lambda>r.
            then_do (effect (set_status ''actualZip'' (JNum r))) (\<lambda>_.
            then_do (checkExec w ''ls''
              \<lparr>param = Some [''-l'', ''.''],
               title = Some ''Listing working directory'',
               error = Some ''Unable to list working directory'',
               chdir = None\<rparr>) (\<lambda>_.
            then_do (checkExec w ''rm''
              \<lparr>param = Some [''-rf'', testDir @ ''/actual''],
               title = Some ''Removing actual files...'',
               error = Some ''Unable to remove actual files'',
               chdir = None\<rparr>) (\<lambda>_.
            upload w ''Actual Output'' [''actual.zip'']))))
          else done_with ())"

definition cleanup_release :: "world \<Rightarrow> unit step" where
  "cleanup_release w =
     reading (\<lambda>q.
       let ref = ctx_ref w in
       if obj_has (states q) ''passed'' \<and> obj_has (states q) ''message'' \<and>
          prefix ''refs/tags/v'' ref
       then
         (let owner = ctx_owner w;
              repo = ctx_repo w;
              tag = obj_get (states q) ''version'';
              version = js_toString (obj_get (states q) ''version'');
              body = '':octocat: '' @ js_toString (obj_get (states q) ''message'') @
                     '' See action run #'' @ show_int (ctx_runNumber w) @
                     '' ('' @ show_int (ctx_runId w) @ '').''
          in
          then_do (call (GetReleaseByTag owner repo tag) (\<lambda>h. getReleaseByTag w h owner repo tag))
            (\<lambda>(release_status, release_id).
          then_do (effect (set_status ''release'' (JNum release_status))) (\<lambda>_.
            if release_status = 200 then
              then_do (call (UpdateRelease owner repo release_id body)
                         (\<lambda>h. updateRelease w h owner repo release_id body)) (\<lambda>update_status.
              then_do (effect (set_status ''release'' (JNum update_status))) (\<lambda>_.
                if update_status = 200 then done_with ()
                else throw (''Unable to update release: '' @ version)))
            else throw (''Unable to find release: '' @ version))))
       else done_with ())"

definition cleanup_cache :: "world \<Rightarrow> unit step" where
  "cleanup_cache w =
     reading (\<lambda>q.
       if obj_has (states q) ''testKey'' then
         (if obj_has (states q) ''testCache'' \<and>
             obj_get (states q) ''testKey'' = obj_get (states q) ''testCache''
          then done_with ()
          else
            (let key = obj_get (states q) ''testKey'' in
             then_do (call (SaveCache [testDir] key) (\<lambda>h. saveCache w h [testDir] key)) (\<lambda>cache_id.
             effect (set_status ''testCache'' (JNum cache_id)))))
       else done_with ())"

definition warn_with :: "string \<Rightarrow> message \<Rightarrow> process \<Rightarrow> process" where
  "warn_with what e p = showWarning (what @ e) p"

definition cleanup_label :: string where
  "cleanup_label = [dq] @ ''Post Test Project'' @ [dq]"

text \<open>
  The groups of \<open>run\<close> after the states are restored. Each \<open>try\<close> has its own \<open>catch\<close>,
  which shows a warning, and the next group runs whatever happened. The two report
  groups run when \<open>passed\<close> is a state and is not the string \<open>true\<close>.
\<close>

definition cleanup_report_groups :: "world \<Rightarrow> process \<Rightarrow> process" where
  "cleanup_report_groups w p =
     (if obj_has (states p) ''passed'' \<and> obj_get (states p) ''passed'' \<noteq> JStr ''true''
      then
        try_catch (cleanup_actual w)
          (warn_with ''Encountered issues uploading actual files. '')
          (try_catch (cleanup_reports w)
             (warn_with ''Encountered issues generating reports. '') p)
      else p)"

definition cleanup_groups :: "world \<Rightarrow> process \<Rightarrow> process" where
  "cleanup_groups w p =
     (let p1 = cleanup_report_groups w p;
          p2 = try_catch (cleanup_release w) (warn_with ''Encountered issues updating release. '') p1;
          p3 = try_catch (cleanup_cache w) (warn_with ''Encountered issues saving cache. '') p2
      in checkWarnings cleanup_label p3)"

text \<open>
  \<open>run\<close> of cleanup.js. \<open>restoreStates\<close> is called outside every \<open>try\<close>: if it throws,
  nothing else of \<open>run\<close> is executed.
\<close>

definition run_cleanup :: "world \<Rightarrow> (string \<rightharpoonup> string) \<Rightarrow> process" where
  "run_cleanup w env =
     (let p = new_process env in
      case restoreStates (states p) p of
        Inl m \<Rightarrow> p
      | Inr sts \<Rightarrow> cleanup_groups w (p\<lparr>states := sts\<rparr>))"

section \<open>What a run is compared with\<close>

text \<open>A mapping from strings to strings, as an object.\<close>

definition strings_object :: "(string \<times> string) list \<Rightarrow> jsobject" where
  "strings_object M = map (\<lambda>(k, v). (k, JStr v)) M"

text \<open>The entries \<open>saveStates\<close> writes for an object: one for each property, then the index.\<close>

definition save_events :: "jsobject \<Rightarrow> event list" where
  "save_events sts =
     map (\<lambda>(k, v). SaveState k (toCommandValue v)) sts @
     [SaveState ''keys'' (JSON_stringify_keys (map fst sts))]"

text \<open>The summary \<open>checkWarnings\<close> gives for a phase label and a count.\<close>

definition summary_events :: "string \<Rightarrow> nat \<Rightarrow> event list" where
  "summary_events phase n =
     (if n > 1 then
        [CoreWarning (''There were '' @ show_nat n @ '' warnings in the '' @
           phase @ '' phase. View the run log for details.'')]
      else if n = 1 then
        [CoreWarning (''There was '' @ show_nat n @ '' warning in the '' @
           phase @ '' phase. View the run log for details.'')]
      else [])"

text \<open>Inputs the theorems are tried on.\<close>

definition some_states :: "(string \<times> string) list" where
  "some_states = [(''project'', ''3a''), (''passed'', ''false'')]"


definition exit_two :: world where
  "exit_two =
     \<lparr>token = [], project_input = [], ctx_owner = [], ctx_repo = [], ctx_ref = [],
      ctx_runNumber = 0, ctx_runId = 0,
      exec_exec = (\<lambda>h c ps d. Inr 2),
      listCommits = (\<lambda>h ow r. Inl []),
      restoreCache = (\<lambda>h ps k ks. Inr None),
      saveCache = (\<lambda>h ps k. Inl []),
      glob_files = (\<lambda>h g. Inr []),
      uploadArtifact = (\<lambda>h n fs r. Inr ([], 0)),
      getReleaseByTag = (\<lambda>h ow r t. Inl []),
      updateRelease = (\<lambda>h ow r i b. Inl [])\<rparr>"

text \<open>Kinds of events.\<close>

fun is_ShowWarning :: "event \<Rightarrow> bool" where
  "is_ShowWarning (ShowWarning t) = True"
| "is_ShowWarning _ = False"


fun is_SaveState :: "event \<Rightarrow> bool" where
  "is_SaveState (SaveState k v) = True"
| "is_SaveState _ = False"

fun is_SaveCache :: "event \<Rightarrow> bool" where
  "is_SaveCache (SaveCache ps k) = True"
| "is_SaveCache _ = False"

fun is_SetFailed :: "event \<Rightarrow> bool" where
  "is_SetFailed (SetFailed m) = True"
| "is_SetFailed _ = False"

fun is_ShowError :: "event \<Rightarrow> bool" where
  "is_ShowError (ShowError m) = True"
| "is_ShowError _ = False"

text \<open>What the groups of a phase do, as opposed to its \<open>catch\<close> and \<open>finally\<close> blocks.\<close>

definition routine :: "event \<Rightarrow> bool" where
  "routine e \<longleftrightarrow> \<not> is_SaveState e \<and> \<not> is_SetFailed e \<and> \<not> is_ShowError e"

text \<open>
  What a step may change between two processes: it adds events of the kind \<open>E\<close>, counts
  the warnings it shows, leaves the state entries alone, and assigns only the
  properties \<open>KS\<close> of \<open>states\<close> and \<open>KT\<close> of \<open>status\<close>.
\<close>

definition frame :: "(event \<Rightarrow> bool) \<Rightarrow> string set \<Rightarrow> string set \<Rightarrow> process \<Rightarrow> process \<Rightarrow> bool" where
  "frame E KS KT p p' \<longleftrightarrow>
     (\<exists>evs. trace p' = trace p @ evs \<and> list_all E evs \<and>
            warnings p' = warnings p + length (filter is_ShowWarning evs)) \<and>
     saved p' = saved p \<and> state_env p' = state_env p \<and>
     (\<forall>k. k \<notin> KS \<longrightarrow> map_of (states p') k = map_of (states p) k) \<and>
     (distinct (map fst (states p)) \<longrightarrow> distinct (map fst (states p'))) \<and>
     (\<forall>k. k \<notin> KT \<longrightarrow> map_of (status p') k = map_of (status p) k)"

definition changes :: "(event \<Rightarrow> bool) \<Rightarrow> string set \<Rightarrow> string set \<Rightarrow> 'a step \<Rightarrow> bool" where
  "changes E KS KT m \<longleftrightarrow> (\<forall>p. frame E KS KT p (snd (m p)))"

text \<open>The commands of setup that depend on what the cache returned.\<close>

fun cache_decided :: "event \<Rightarrow> bool" where
  "cache_decided (Exec c ps d) =
     (c = ''git'' \<and> (ps = [''status''] \<or> ps = [''pull'', ''--ff-only''] \<or>
        take 4 ps = [''clone'', ''--depth'', ''1'', ''--no-tags'']))"
| "cache_decided _ = False"

definition setup_keys :: "string set" where
  "setup_keys = {''owner'', ''mainRepo'', ''testRepo'', ''project'', ''version'', ''tester''}"

text \<open>The events of the groups whose commands do not depend on a cache or on a state.\<close>

definition plain :: "event \<Rightarrow> bool" where
  "plain e \<longleftrightarrow> routine e \<and> \<not> cache_decided e \<and> \<not> is_ShowWarning e \<and> \<not> is_SaveCache e"

definition verify_status_keys :: "string set" where
  "verify_status_keys = {''maven'', ''mainWarnings'', ''mainCompile'', ''testCompile''}"

definition quiet_world :: world where
  "quiet_world =
     \<lparr>token = ''t0k'', project_input = [], ctx_owner = ''ada'', ctx_repo = ''project-ada'',
      ctx_ref = ''refs/tags/v1.0.2'', ctx_runNumber = 7, ctx_runId = 42,
      exec_exec = (\<lambda>h c ps d. Inr 0),
      listCommits = (\<lambda>h ow r. Inr ''abc123''),
      restoreCache = (\<lambda>h ps k ks. Inr (Some k)),
      saveCache = (\<lambda>h ps k. Inr 1),
      glob_files = (\<lambda>h g. Inr []),
      uploadArtifact = (\<lambda>h n fs r. Inr ([], 10)),
      getReleaseByTag = (\<lambda>h ow r t. Inr (200, 5)),
      updateRelease = (\<lambda>h ow r i b. Inr 200)\<rparr>"


text \<open>The events of the cleanup groups that come before the cache is saved.\<close>

definition unsaved :: "event \<Rightarrow> bool" where
  "unsaved e \<longleftrightarrow> routine e \<and> \<not> is_SaveCache e"

text \<open>The process before the cache group of cleanup, and after it.\<close>

definition before_cache :: "world \<Rightarrow> process \<Rightarrow> process" where
  "before_cache w p =
     try_catch (cleanup_release w) (warn_with ''Encountered issues updating release. '')
       (cleanup_report_groups w p)"






section \<open>The JSON text of the index is read back\<close>

lemma hex_val_hex_char_upt: "list_all (\<lambda>n. hex_val (hex_char n) = Some n) [0..<16]"
  by code_simp

lemma hex_val_hex_char: "n < 16 \<Longrightarrow> hex_val (hex_char n) = Some n"
  using hex_val_hex_char_upt by (simp add: list_all_iff)

lemma unhex4_control:
  assumes "(of_char c :: nat) < 32"
  shows "unhex4 CHR ''0'' CHR ''0'' (hex_char ((of_char c :: nat) div 16)) (hex_char (of_char c :: nat)) = Some c"
proof -
  let ?n = "of_char c :: nat"
  have a: "hex_val (hex_char (?n div 16)) = Some (?n div 16)"
    using assms by (intro hex_val_hex_char) simp
  have "hex_char ?n = hex_char (?n mod 16)" by (simp add: hex_char_def)
  then have b: "hex_val (hex_char ?n) = Some (?n mod 16)"
    using hex_val_hex_char [of "?n mod 16"] by simp
  have z: "hex_val CHR ''0'' = Some 0" by (simp add: hex_val_def)
  have "char_of (16 * (?n div 16) + ?n mod 16) = c" by simp
  then show ?thesis by (simp add: unhex4_def a b z)
qed


lemma quote_char_cases:
  "quote_char c = [bsl, dq] \<and> c = dq
   \<or> quote_char c = [bsl, bsl] \<and> c = bsl
   \<or> quote_char c = [bsl, CHR ''b''] \<and> c = CHR 0x08
   \<or> quote_char c = [bsl, CHR ''f''] \<and> c = CHR 0x0C
   \<or> quote_char c = [bsl, CHR ''n''] \<and> c = CHR 0x0A
   \<or> quote_char c = [bsl, CHR ''r''] \<and> c = CHR 0x0D
   \<or> quote_char c = [bsl, CHR ''t''] \<and> c = CHR 0x09
   \<or> quote_char c = [bsl, CHR ''u'', CHR ''0'', CHR ''0'',
              hex_char ((of_char c :: nat) div 16), hex_char (of_char c :: nat)] \<and> (of_char c :: nat) < 32
   \<or> quote_char c = [c] \<and> c \<noteq> dq \<and> c \<noteq> bsl \<and> \<not> (of_char c :: nat) < 32"
  unfolding quote_char_def by presburger

lemma parse_escape:
  "unescape e = Some c \<Longrightarrow> e \<noteq> CHR ''u'' \<Longrightarrow>
   parse_string_body (bsl # e # s) = cons_result c (parse_string_body s)"
  by (simp add: dq_def bsl_def)

lemma parse_unicode:
  "unhex4 h1 h2 h3 h4 = Some c \<Longrightarrow>
   parse_string_body (bsl # CHR ''u'' # h1 # h2 # h3 # h4 # s) = cons_result c (parse_string_body s)"
  by (simp add: dq_def bsl_def)

lemma parse_plain:
  "c \<noteq> dq \<Longrightarrow> c \<noteq> bsl \<Longrightarrow> \<not> (of_char c :: nat) < 32 \<Longrightarrow>
   parse_string_body (c # s) = cons_result c (parse_string_body s)"
  by simp

lemma parse_quote_char:
  "parse_string_body (quote_char c @ s) = cons_result c (parse_string_body s)"
proof -
  have u: "unescape dq = Some dq" "unescape bsl = Some bsl" "unescape CHR ''b'' = Some (CHR 0x08)"
    "unescape CHR ''f'' = Some (CHR 0x0C)" "unescape CHR ''n'' = Some (CHR 0x0A)"
    "unescape CHR ''r'' = Some (CHR 0x0D)" "unescape CHR ''t'' = Some (CHR 0x09)"
    by (simp_all add: unescape_def dq_def bsl_def)
  have n: "dq \<noteq> CHR ''u''" "bsl \<noteq> CHR ''u''"
    by (simp_all add: dq_def bsl_def)
  from quote_char_cases [of c] show ?thesis
    by (elim disjE conjE)
       (simp_all only: append_Cons append_Nil parse_escape [OF u(1) n(1)] parse_escape [OF u(2) n(2)]
          parse_escape [OF u(3)] parse_escape [OF u(4)] parse_escape [OF u(5)]
          parse_escape [OF u(6)] parse_escape [OF u(7)] parse_unicode [OF unhex4_control]
          parse_plain char.inject simp_thms)
qed


lemma parse_string_body_quoted:
  "parse_string_body (concat (map quote_char k) @ dq # rest) = Some (k, rest)"
proof (induction k)
  case Nil
  show ?case by simp
next
  case (Cons c k)
  have "parse_string_body (quote_char c @ (concat (map quote_char k) @ dq # rest)) = Some (c # k, rest)"
    unfolding parse_quote_char Cons.IH by (simp add: cons_result_def)
  then show ?case by simp
qed

lemma parse_elements_comma:
  "parse_elements (quote_string k @ CHR '','' # s) = map_option ((#) k) (parse_elements s)"
  by (subst parse_elements.simps) (simp add: quote_string_def parse_string_body_quoted)

lemma parse_elements_last:
  "parse_elements (quote_string k @ '']'') = Some [k]"
  by (subst parse_elements.simps) (simp add: quote_string_def parse_string_body_quoted)

lemma parse_elements_quoted:
  "parse_elements (join_commas (map quote_string (k # ks)) @ '']'') = Some (k # ks)"
  by (induction ks arbitrary: k) (simp_all add: parse_elements_comma parse_elements_last)

lemma JSON_stringify_nonempty: "JSON_stringify_keys ks \<noteq> []"
  by (simp add: JSON_stringify_keys_def)

lemma JSON_parse_stringify: "JSON_parse_keys (JSON_stringify_keys ks) = Some ks"
proof (cases ks)
  case Nil
  then show ?thesis by (simp add: JSON_parse_keys_def JSON_stringify_keys_def)
next
  case (Cons k ks')
  have "hd (join_commas (map quote_string (k # ks')) @ '']'') = dq"
    by (cases ks') (simp_all add: quote_string_def)
  then have "join_commas (map quote_string (k # ks')) @ '']'' \<noteq> '']''"
    by (auto simp: dq_def)
  then show ?thesis
    using parse_elements_quoted [of k ks'] Cons
    by (simp add: JSON_parse_keys_def JSON_stringify_keys_def)
qed

section \<open>Objects as mappings\<close>

lemma keys_obj_replace: "map fst (obj_replace k v ob) = map fst ob"
  by (induction ob) auto

lemma map_of_obj_replace:
  "map_of (obj_replace k v ob) x =
     (if x = k \<and> map_of ob k \<noteq> None then Some v else map_of ob x)"
  by (induction ob) auto

lemma keys_obj_add: "fst ` set (obj_add k v ob) = insert k (fst ` set ob)"
  by (induction ob) (force split: if_splits)+

lemma distinct_obj_add:
  "k \<notin> fst ` set ob \<Longrightarrow> distinct (map fst ob) \<Longrightarrow> distinct (map fst (obj_add k v ob))"
proof (induction ob)
  case Nil
  then show ?case by simp
next
  case (Cons a ob)
  obtain k' v' where a: "a = (k', v')" by (cases a)
  have "k' \<notin> fst ` set (obj_add k v ob)"
    using Cons.prems by (auto simp: keys_obj_add a)
  with Cons show ?case by (simp add: a)
qed

lemma map_of_obj_add:
  "map_of ob k = None \<Longrightarrow> map_of (obj_add k v ob) x = (if x = k then Some v else map_of ob x)"
  by (induction ob) (auto split: if_splits)

lemma obj_has_map_of: "obj_has ob k \<longleftrightarrow> map_of ob k \<noteq> None"
  by (simp add: obj_has_def map_of_eq_None_iff)

lemma map_of_obj_set:
  "map_of (obj_set ob k v) =
     (if k = ''__proto__'' \<and> \<not> obj_has ob k then map_of ob else (map_of ob)(k \<mapsto> v))"
proof (rule ext)
  fix x
  show "map_of (obj_set ob k v) x =
     (if k = ''__proto__'' \<and> \<not> obj_has ob k then map_of ob else (map_of ob)(k \<mapsto> v)) x"
  proof (cases "obj_has ob k")
    case True
    then show ?thesis
      by (simp add: obj_set_def map_of_obj_replace obj_has_map_of)
  next
    case False
    then have "map_of ob k = None" by (simp add: obj_has_map_of)
    with False show ?thesis
      by (simp add: obj_set_def map_of_obj_add)
  qed
qed

lemma distinct_obj_set:
  "distinct (map fst ob) \<Longrightarrow> distinct (map fst (obj_set ob k v))"
  by (simp add: obj_set_def obj_has_def keys_obj_replace distinct_obj_add)

lemma obj_has_set:
  "obj_has (obj_set ob k v) k' \<longleftrightarrow> obj_has ob k' \<or> (k' = k \<and> k \<noteq> ''__proto__'')"
  by (auto simp: obj_has_map_of map_of_obj_set)

lemma obj_get_set:
  "obj_get (obj_set ob k v) k' =
     (if k' = k \<and> (k \<noteq> ''__proto__'' \<or> obj_has ob k) then v else obj_get ob k')"
  by (auto simp: obj_get_def map_of_obj_set)

section \<open>The state store\<close>

lemma save_each_fields:
  "warnings (save_each sts p) = warnings p"
  "state_env (save_each sts p) = state_env p"
  "states (save_each sts p) = states p"
  "status (save_each sts p) = status p"
  "trace (save_each sts p) = trace p @ map (\<lambda>(k, v). SaveState k (toCommandValue v)) sts"
  by (induction sts arbitrary: p; auto simp: saveState_def emit_def)+

lemma saved_save_each:
  "distinct (map fst sts) \<Longrightarrow>
   saved (save_each sts p) k =
     (case map_of sts k of Some v \<Rightarrow> Some (toCommandValue v) | None \<Rightarrow> saved p k)"
proof (induction sts arbitrary: p)
  case Nil
  then show ?case by simp
next
  case (Cons a sts)
  obtain k' v' where a: "a = (k', v')" by (cases a)
  from Cons.prems a have "map_of sts k' = None"
    by (simp add: map_of_eq_None_iff)
  with Cons show ?case
    by (auto simp: a saveState_def emit_def split: option.splits)
qed

lemma saveStates_fields:
  "warnings (saveStates sts p) = warnings p"
  "state_env (saveStates sts p) = state_env p"
  "states (saveStates sts p) = states p"
  "status (saveStates sts p) = status p"
  "trace (saveStates sts p) = trace p @ save_events sts"
  by (simp_all add: saveStates_def saveState_def emit_def save_each_fields save_events_def)

lemma saved_saveStates:
  "distinct (map fst sts) \<Longrightarrow>
   saved (saveStates sts p) k =
     (if k = ''keys'' then Some (JSON_stringify_keys (map fst sts))
      else case map_of sts k of Some v \<Rightarrow> Some (toCommandValue v) | None \<Rightarrow> saved p k)"
  by (simp add: saveStates_def saveState_def emit_def saved_save_each)

lemma map_of_restore_each:
  "map_of (restore_each p ks sts) k =
     (if k \<in> set ks \<and> (k \<noteq> ''__proto__'' \<or> obj_has sts k)
      then Some (JStr (getState p k)) else map_of sts k)"
proof (induction ks arbitrary: sts)
  case Nil
  then show ?case by simp
next
  case (Cons a ks)
  show ?case
    by (auto simp: Cons.IH map_of_obj_set obj_has_set)
qed

lemma distinct_restore_each:
  "distinct (map fst sts) \<Longrightarrow> distinct (map fst (restore_each p ks sts))"
  by (induction ks arbitrary: sts) (simp_all add: distinct_obj_set)

section \<open>Saving and restoring the states\<close>

text \<open>
  C3, as the code has it. The index entry is stored under the key \<open>keys\<close>, like a state of
  that name, and \<open>restoreStates\<close> assigns with \<open>states[key] = ...\<close>. For every mapping
  from strings to strings whose keys are neither \<open>keys\<close> nor \<open>__proto__\<close> (the empty
  mapping is one), and whatever entries the run had before, \<open>restoreStates\<close> on an empty
  object in the next process returns an object with exactly the keys and values of the
  mapping that \<open>saveStates\<close> saved.
\<close>

theorem restore_after_save:
  assumes "distinct (map fst M)" and "''keys'' \<notin> fst ` set M" and "''__proto__'' \<notin> fst ` set M"
  shows "\<exists>sts. restoreStates [] (new_process (next_env (saveStates (strings_object M) (new_process env)))) = Inr sts
            \<and> distinct (map fst sts)
            \<and> map_of sts = map_of (strings_object M)"
proof -
  let ?ob = "strings_object M"
  let ?q = "new_process (next_env (saveStates ?ob (new_process env)))"
  have keys: "map fst ?ob = map fst M"
    by (simp add: strings_object_def case_prod_unfold comp_def)
  then have d: "distinct (map fst ?ob)" using assms(1) by simp
  have env: "state_env ?q k =
        (if k = ''keys'' then Some (JSON_stringify_keys (map fst M))
         else case map_of ?ob k of Some v \<Rightarrow> Some (toCommandValue v) | None \<Rightarrow> env k)" for k
    using saved_saveStates [OF d, of "new_process env" k] keys
    by (auto simp: new_process_def next_env_def saveStates_fields map_add_def split: option.splits)
  have idx: "getState ?q ''keys'' = JSON_stringify_keys (map fst M)"
    by (simp add: getState_def env)
  have val: "getState ?q k = v" if "(k, v) \<in> set M" for k v
  proof -
    from that assms(2) have "k \<noteq> ''keys''" by force
    moreover from that assms(1) have "map_of ?ob k = Some (JStr v)"
      unfolding strings_object_def
      by (induction M) (auto simp: rev_image_eqI)
    ultimately show ?thesis by (simp add: getState_def env)
  qed
  let ?sts = "restore_each ?q (map fst M) []"
  have r: "restoreStates [] ?q = Inr ?sts"
    by (simp add: restoreStates_def idx JSON_stringify_nonempty JSON_parse_stringify Let_def)
  have "map_of ?sts k = map_of ?ob k" for k
  proof (cases "k \<in> fst ` set M")
    case True
    then obtain v where kv: "(k, v) \<in> set M" by auto
    with assms(3) have "k \<noteq> ''__proto__''" by force
    moreover from kv assms(1) have "map_of ?ob k = Some (JStr v)"
      unfolding strings_object_def
      by (induction M) (auto simp: rev_image_eqI)
    ultimately show ?thesis using True val [OF kv]
      by (simp add: map_of_restore_each)
  next
    case False
    then have "map_of ?ob k = None"
      using keys by (metis list.set_map map_of_eq_None_iff)
    with False show ?thesis
      by (simp add: map_of_restore_each)
  qed
  then have "map_of ?sts = map_of ?ob" by (rule ext)
  moreover have "distinct (map fst ?sts)" by (simp add: distinct_restore_each)
  ultimately show ?thesis using r by blast
qed

theorem restore_after_save_witness:
  "distinct (map fst some_states) \<and> ''keys'' \<notin> fst ` set some_states \<and>
   ''__proto__'' \<notin> fst ` set some_states \<and>
   (\<exists>sts. restoreStates []
      (new_process (next_env (saveStates (strings_object some_states) (new_process Map.empty)))) = Inr sts
      \<and> distinct (map fst sts)
      \<and> map_of sts = map_of (strings_object some_states))"
proof -
  have a: "distinct (map fst some_states)" by (simp add: some_states_def)
  have b: "''keys'' \<notin> fst ` set some_states" by (simp add: some_states_def)
  have c: "''__proto__'' \<notin> fst ` set some_states" by (simp add: some_states_def)
  show ?thesis
    using restore_after_save [OF a b c, of Map.empty] a b c by blast
qed

text \<open>
  C3 as stated fails for a mapping that has the key \<open>keys\<close>: its value is overwritten
  by the index, and the index is what is restored.
\<close>

theorem restore_after_save_reserved_key:
  "restoreStates []
     (new_process (next_env (saveStates (strings_object [(''keys'', ''x'')]) (new_process Map.empty))))
   = Inr [(''keys'', JStr ([CHR ''['', dq] @ ''keys'' @ [dq, CHR '']'']))]
   \<and> [(''keys'', JStr ([CHR ''['', dq] @ ''keys'' @ [dq, CHR '']'']))] \<noteq> strings_object [(''keys'', ''x'')]"
  by code_simp



section \<open>The command runner\<close>

text \<open>
  C8: for every command, settings (with or without parameters) and exit code that
  \<open>exec.exec\<close> resolves to, \<open>checkExec\<close> returns the exit code when the settings have no
  \<open>error\<close>, and throws an error with the message \<open>error (code).\<close> when they have one and
  the code is not zero.
\<close>

theorem checkExec_exit_code:
  assumes "exec_exec w (trace p) command (case param s of Some ps \<Rightarrow> ps | None \<Rightarrow> []) (chdir s) = Inr code"
  shows "(error s = None \<longrightarrow> fst (checkExec w command s p) = Inr code) \<and>
         (\<forall>msg. error s = Some msg \<and> code \<noteq> 0 \<longrightarrow>
            fst (checkExec w command s p) = Inl (msg @ '' ('' @ show_int code @ '').''))"
  using assms by (auto simp: checkExec_def Let_def then_do_def call_def throw_def done_with_def)

theorem checkExec_exit_code_witness:
  "fst (checkExec exit_two ''mvn'' \<lparr>param = None, title = None, error = None, chdir = None\<rparr>
          (new_process Map.empty)) = Inr 2 \<and>
   fst (checkExec exit_two ''ls'' \<lparr>param = Some [], title = None, error = Some ''Unable to list'', chdir = None\<rparr>
          (new_process Map.empty)) = Inl ''Unable to list (2).''"
proof -
  have e: "exec_exec exit_two h c ps d = Inr 2" for h c ps d
    by (simp add: exit_two_def)
  have s: "show_int 2 = ''2''" by code_simp
  show ?thesis
    using checkExec_exit_code [of exit_two "new_process Map.empty" "''mvn''"
        "\<lparr>param = None, title = None, error = None, chdir = None\<rparr>" 2]
      checkExec_exit_code [of exit_two "new_process Map.empty" "''ls''"
        "\<lparr>param = Some [], title = None, error = Some ''Unable to list'', chdir = None\<rparr>" 2]
    by (simp add: e s)
qed

section \<open>What a step changes\<close>

lemma frame_refl: "frame E KS KT p p"
  by (simp add: frame_def)

lemma frame_trans:
  assumes "frame E KS KT p p'" and "frame E KS KT p' p''"
  shows "frame E KS KT p p''"
proof -
  from assms(1) obtain evs where 1: "trace p' = trace p @ evs" "list_all E evs"
    "warnings p' = warnings p + length (filter is_ShowWarning evs)"
    by (auto simp: frame_def)
  from assms(2) obtain evs' where 2: "trace p'' = trace p' @ evs'" "list_all E evs'"
    "warnings p'' = warnings p' + length (filter is_ShowWarning evs')"
    by (auto simp: frame_def)
  have "trace p'' = trace p @ (evs @ evs') \<and> list_all E (evs @ evs') \<and>
        warnings p'' = warnings p + length (filter is_ShowWarning (evs @ evs'))"
    using 1 2 by simp
  then have "\<exists>evs. trace p'' = trace p @ evs \<and> list_all E evs \<and>
            warnings p'' = warnings p + length (filter is_ShowWarning evs)"
    by blast
  moreover have "saved p'' = saved p" "state_env p'' = state_env p"
    "\<forall>k. k \<notin> KS \<longrightarrow> map_of (states p'') k = map_of (states p) k"
    "distinct (map fst (states p)) \<longrightarrow> distinct (map fst (states p''))"
    "\<forall>k. k \<notin> KT \<longrightarrow> map_of (status p'') k = map_of (status p) k"
    using assms by (simp_all add: frame_def)
  ultimately show ?thesis
    unfolding frame_def by blast
qed

lemma frame_emit: "E e \<Longrightarrow> \<not> is_ShowWarning e \<Longrightarrow> frame E KS KT p (emit e p)"
  by (simp add: frame_def emit_def)

lemma frame_showWarning: "E (ShowWarning t) \<Longrightarrow> frame E KS KT p (showWarning t p)"
  by (simp add: frame_def showWarning_def emit_def)

lemma frame_set_states: "k \<in> KS \<Longrightarrow> frame E KS KT p (set_states k v p)"
  by (auto simp: frame_def set_states_def map_of_obj_set distinct_obj_set)

lemma frame_set_status: "k \<in> KT \<Longrightarrow> frame E KS KT p (set_status k v p)"
  by (auto simp: frame_def set_status_def map_of_obj_set)

lemma changes_done_with: "changes E KS KT (done_with x)"
  by (simp add: changes_def done_with_def frame_refl)

lemma changes_throw: "changes E KS KT (throw m)"
  by (simp add: changes_def throw_def frame_refl)

lemma changes_effect: "(\<And>p. frame E KS KT p (f p)) \<Longrightarrow> changes E KS KT (effect f)"
  by (simp add: changes_def effect_def)

lemma changes_then_do:
  assumes "changes E KS KT m" and "\<And>x. changes E KS KT (f x)"
  shows "changes E KS KT (then_do m f)"
proof -
  have "frame E KS KT p (snd (then_do m f p))" for p
  proof (cases "m p")
    case (Pair r p')
    have 1: "frame E KS KT p p'"
      using assms(1) Pair by (auto simp: changes_def dest: spec [of _ p])
    show ?thesis
    proof (cases r)
      case (Inl e)
      with Pair 1 show ?thesis by (simp add: then_do_def)
    next
      case (Inr x)
      have "frame E KS KT p' (snd (f x p'))"
        using assms(2) [of x] by (simp add: changes_def)
      with 1 have "frame E KS KT p (snd (f x p'))" by (rule frame_trans)
      with Pair Inr show ?thesis by (simp add: then_do_def)
    qed
  qed
  then show ?thesis by (simp add: changes_def)
qed

lemma changes_reading: "(\<And>q. changes E KS KT (F q)) \<Longrightarrow> changes E KS KT (reading F)"
  by (simp add: changes_def reading_def)

lemma changes_rethrow: "changes E KS KT m \<Longrightarrow> changes E KS KT (rethrow f m)"
proof -
  assume a: "changes E KS KT m"
  have "snd (rethrow f m p) = snd (m p)" for p
    by (cases "m p") (auto simp: rethrow_def split: sum.splits)
  with a show ?thesis by (simp add: changes_def)
qed

lemma changes_call: "E e \<Longrightarrow> \<not> is_ShowWarning e \<Longrightarrow> changes E KS KT (call e outcome)"
  by (auto simp: changes_def call_def frame_emit split: sum.splits)

lemma changes_checkExec:
  assumes "E (Exec c (case param s of Some ps \<Rightarrow> ps | None \<Rightarrow> []) (chdir s))"
  shows "changes E KS KT (checkExec w c s)"
  unfolding checkExec_def Let_def
  by (intro changes_then_do changes_call assms)
     (auto simp: changes_throw changes_done_with split: option.splits)

lemma changes_if:
  "(c \<Longrightarrow> changes E KS KT A) \<Longrightarrow> (\<not> c \<Longrightarrow> changes E KS KT B) \<Longrightarrow>
   changes E KS KT (if c then A else B)"
  by simp

lemma changes_set_states: "k \<in> KS \<Longrightarrow> changes E KS KT (effect (set_states k v))"
  by (simp add: changes_effect frame_set_states)

lemma changes_set_status: "k \<in> KT \<Longrightarrow> changes E KS KT (effect (set_status k v))"
  by (simp add: changes_effect frame_set_status)

lemma changes_showWarning: "E (ShowWarning t) \<Longrightarrow> changes E KS KT (effect (showWarning t))"
  by (simp add: changes_effect frame_showWarning)

lemma changes_showSuccess: "E (ShowSuccess t) \<Longrightarrow> changes E KS KT (effect (showSuccess t))"
  by (simp add: changes_effect frame_emit showSuccess_def)

lemma changes_emit: "E e \<Longrightarrow> \<not> is_ShowWarning e \<Longrightarrow> changes E KS KT (effect (emit e))"
  by (simp add: changes_effect frame_emit)

lemma frame_weaken:
  assumes "frame E KS KT p p'" and "\<And>e. E e \<Longrightarrow> E' e" and "KS \<subseteq> KS'" and "KT \<subseteq> KT'"
  shows "frame E' KS' KT' p p'"
proof -
  from assms(1) obtain evs where 1: "trace p' = trace p @ evs" "list_all E evs"
    "warnings p' = warnings p + length (filter is_ShowWarning evs)"
    by (auto simp: frame_def)
  from 1(2) assms(2) have "list_all E' evs"
    by (simp add: list_all_iff)
  with 1 have "\<exists>evs. trace p' = trace p @ evs \<and> list_all E' evs \<and>
            warnings p' = warnings p + length (filter is_ShowWarning evs)"
    by blast
  moreover have "saved p' = saved p" "state_env p' = state_env p"
    "\<forall>k. k \<notin> KS' \<longrightarrow> map_of (states p') k = map_of (states p) k"
    "distinct (map fst (states p)) \<longrightarrow> distinct (map fst (states p'))"
    "\<forall>k. k \<notin> KT' \<longrightarrow> map_of (status p') k = map_of (status p) k"
    using assms by (auto simp: frame_def)
  ultimately show ?thesis
    unfolding frame_def by blast
qed

lemma changesD: "changes E KS KT m \<Longrightarrow> frame E KS KT p (snd (m p))"
  by (simp add: changes_def)

lemma frame_try_catch:
  assumes "changes E KS KT body" and "\<And>e q. frame E KS KT q (handler e q)"
  shows "frame E KS KT p (try_catch body handler p)"
proof (cases "body p")
  case (Pair r p')
  have 1: "frame E KS KT p p'"
    using changesD [OF assms(1), of p] Pair by simp
  show ?thesis
  proof (cases r)
    case (Inl e)
    with Pair have "try_catch body handler p = handler e p'"
      by (simp add: try_catch_def)
    with 1 assms(2) [of p' e] show ?thesis
      by (simp add: frame_trans)
  next
    case (Inr x)
    with Pair 1 show ?thesis by (simp add: try_catch_def)
  qed
qed

lemmas changes_intros =
  changes_done_with changes_throw changes_then_do changes_reading changes_rethrow
  changes_call changes_checkExec changes_if changes_set_states changes_set_status
  changes_showWarning changes_showSuccess changes_emit

section \<open>What the groups of the phases change\<close>

lemma setup_parse_details_changes:
  "changes (\<lambda>e. False) setup_keys {} (setup_parse_details w)"
  unfolding setup_parse_details_def Let_def setup_keys_def
  by (intro changes_intros)
     (auto intro!: changes_intros split: option.splits)

lemma setup_clone_main_changes:
  "changes plain {} {''mainClone''} (setup_clone_main w)"
  unfolding setup_clone_main_def Let_def
  by (intro changes_intros) (simp_all add: plain_def routine_def)

lemma setup_check_directory_changes:
  "changes plain {} {} (setup_check_directory w)"
  unfolding setup_check_directory_def
  by (intro changes_intros) (simp_all add: plain_def routine_def)

lemma setup_test_cache_changes:
  "changes routine {''testKey'', ''testCache''} {''testCache''} (setup_test_cache w)"
  unfolding setup_test_cache_def Let_def git_status_command_def git_pull_command_def
  by (intro changes_intros) (simp_all add: routine_def)

lemma setup_clone_tests_changes:
  "changes routine {} {''testClone''} (setup_clone_tests w)"
  unfolding setup_clone_tests_def Let_def test_clone_command_def
  by (intro changes_intros) (simp_all add: routine_def)

lemma verify_restore_changes:
  "changes (\<lambda>e. False) UNIV {} verify_restore"
proof -
  have "frame (\<lambda>e. False) UNIV {} p (snd (verify_restore p))" for p
    by (auto simp: verify_restore_def reading_def restoreStates_def Let_def effect_def throw_def
        frame_def distinct_restore_each split: option.splits)
  then show ?thesis by (simp add: changes_def)
qed

lemma verify_environment_changes:
  "changes plain {} verify_status_keys (verify_environment w)"
  unfolding verify_environment_def
  by (intro changes_intros) (simp_all add: plain_def routine_def)

lemma verify_dependencies_changes:
  "changes plain {} verify_status_keys (verify_dependencies w)"
  unfolding verify_dependencies_def
  by (intro changes_intros) (simp_all add: plain_def routine_def verify_status_keys_def)

lemma verify_compile_main_changes:
  "changes plain {} verify_status_keys (verify_compile_main w)"
  unfolding verify_compile_main_def
  by (intro changes_intros) (simp_all add: plain_def routine_def verify_status_keys_def)

lemma verify_compile_tests_changes:
  "changes plain {} verify_status_keys (verify_compile_tests w)"
  unfolding verify_compile_tests_def
  by (intro changes_intros) (simp_all add: plain_def routine_def verify_status_keys_def)

lemma verify_tests_changes:
  "changes routine {''passed'', ''message''} {''verify'', ''debug''} (verify_tests w)"
  unfolding verify_tests_def Let_def verify_command_def debug_command_def
  by (intro changes_intros) (simp_all add: routine_def)

lemma upload_changes: "changes plain {} KT (upload w name files)"
  unfolding upload_def
  by (intro changes_intros) (auto simp: plain_def routine_def intro!: changes_intros)

lemma cleanup_reports_changes:
  "changes plain {} UNIV (cleanup_reports w)"
  unfolding cleanup_reports_def reports_command_def
  by (intro changes_intros upload_changes) (simp_all add: plain_def routine_def)

lemma cleanup_actual_changes:
  "changes plain {} UNIV (cleanup_actual w)"
  unfolding cleanup_actual_def
  by (intro changes_intros upload_changes) (simp_all add: plain_def routine_def)

lemma cleanup_release_changes:
  "changes plain {} UNIV (cleanup_release w)"
  unfolding cleanup_release_def Let_def
  by (intro changes_intros) (auto simp: plain_def routine_def intro!: changes_intros)

lemma cleanup_cache_changes:
  "changes (\<lambda>e. routine e \<and> \<not> is_ShowWarning e) {} UNIV (cleanup_cache w)"
  unfolding cleanup_cache_def Let_def
  by (intro changes_intros) (simp_all add: routine_def)

section \<open>Running a phase\<close>


lemma then_do_Inr: "m p = (Inr x, p') \<Longrightarrow> then_do m f p = f x p'"
  by (simp add: then_do_def)

lemma then_do_cases:
  assumes "then_do m f p = (r, p')"
  shows "(\<exists>e. m p = (Inl e, p') \<and> r = Inl e) \<or> (\<exists>x q. m p = (Inr x, q) \<and> f x q = (r, p'))"
proof (cases "m p")
  case (Pair a q)
  with assms show ?thesis
    by (cases a) (auto simp: then_do_def)
qed

lemma checkWarnings_fields:
  "warnings (checkWarnings phase p) = warnings p"
  "saved (checkWarnings phase p) = saved p"
  "state_env (checkWarnings phase p) = state_env p"
  "states (checkWarnings phase p) = states p"
  "status (checkWarnings phase p) = status p"
  "trace (checkWarnings phase p) = trace p @ summary_events phase (warnings p)"
  by (simp_all add: checkWarnings_def summary_events_def emit_def)

lemma setup_catch_fields:
  "warnings (setup_catch e p) = warnings p"
  "saved (setup_catch e p) = saved p"
  "state_env (setup_catch e p) = state_env p"
  "states (setup_catch e p) = states p"
  "status (setup_catch e p) = status p"
  "trace (setup_catch e p) =
     trace p @ [ShowError (''Error: '' @ e @ [nl]), SetFailed (''Setup failed. '' @ e)]"
  by (simp_all add: setup_catch_def setFailed_def showError_def emit_def)

lemma verify_catch_fields:
  "warnings (verify_catch e p) = warnings p"
  "saved (verify_catch e p) = saved p"
  "state_env (verify_catch e p) = state_env p"
  "states (verify_catch e p) = states p"
  "status (verify_catch e p) = status p"
  "trace (verify_catch e p) =
     trace p @ [ShowError (e @ [nl]), SetFailed (''Unable to verify project. '' @ e)]"
  by (simp_all add: verify_catch_def setFailed_def showError_def emit_def)






section \<open>What the phases change\<close>

lemma changes_weaken:
  assumes "changes E KS KT m" and "\<And>e. E e \<Longrightarrow> E' e" and "KS \<subseteq> KS'" and "KT \<subseteq> KT'"
  shows "changes E' KS' KT' m"
  unfolding changes_def
proof
  fix p
  from assms(1) have "frame E KS KT p (snd (m p))" by (rule changesD)
  then show "frame E' KS' KT' p (snd (m p))"
    using assms(2-4) by (rule frame_weaken)
qed

lemma plain_routine: "plain e \<Longrightarrow> routine e"
  by (simp add: plain_def)

lemma setup_groups_changes: "changes routine UNIV UNIV (setup_groups w)"
  unfolding setup_groups_def
  by (intro changes_then_do
      changes_weaken [OF setup_parse_details_changes]
      changes_weaken [OF setup_clone_main_changes]
      changes_weaken [OF setup_test_cache_changes]
      changes_weaken [OF setup_clone_tests_changes]
      changes_weaken [OF setup_check_directory_changes])
     (simp_all add: plain_routine)

lemma verify_prepare_changes: "changes routine UNIV verify_status_keys (verify_prepare w)"
  unfolding verify_prepare_def
  by (intro changes_then_do
      changes_weaken [OF verify_restore_changes]
      changes_weaken [OF verify_environment_changes]
      changes_weaken [OF verify_dependencies_changes]
      changes_weaken [OF verify_compile_main_changes]
      changes_weaken [OF verify_compile_tests_changes])
     (simp_all add: plain_routine)

lemma verify_try_changes: "changes routine UNIV UNIV (verify_try w)"
  unfolding verify_try_def
  by (intro changes_then_do
      changes_weaken [OF verify_prepare_changes]
      changes_weaken [OF verify_tests_changes])
     simp_all

lemma frame_new_process:
  assumes "frame E KS KT (new_process env) q"
  shows "warnings q = length (filter is_ShowWarning (trace q))"
    and "list_all E (trace q)" and "saved q = Map.empty" and "state_env q = env"
    and "distinct (map fst (states q))"
  using assms by (auto simp: frame_def new_process_def)


lemma summary_kinds:
  "\<not> list_ex is_SetFailed (summary_events phase n)"
  "\<not> list_ex is_SaveState (summary_events phase n)"
  "filter is_ShowWarning (summary_events phase n) = []"
  by (simp_all add: summary_events_def)

lemma save_kinds:
  "\<not> list_ex is_SetFailed (save_events sts)"
  "filter is_ShowWarning (save_events sts) = []"
  by (induction sts) (auto simp: save_events_def)

lemma setup_try_outcome:
  obtains (threw) e q where "setup_try w (new_process env) = (Inl e, q)"
      "frame routine UNIV UNIV (new_process env) q"
  | (completed) q where "setup_try w (new_process env) = (Inr (), saveStates (states q) q)"
      "frame routine UNIV UNIV (new_process env) q"
proof (cases "setup_groups w (new_process env)")
  case (Pair r q)
  have f: "frame routine UNIV UNIV (new_process env) q"
    using changesD [OF setup_groups_changes, of "new_process env" w] Pair by simp
  show ?thesis
  proof (cases r)
    case (Inl e)
    with Pair have "setup_try w (new_process env) = (Inl e, q)"
      by (simp add: setup_try_def then_do_def)
    then show ?thesis using f by (rule threw)
  next
    case (Inr u)
    with Pair have "setup_try w (new_process env) = (Inr (), saveStates (states q) q)"
      by (simp add: setup_try_def then_do_def reading_def effect_def)
    then show ?thesis using f by (rule completed)
  qed
qed

lemma run_setup_outcome:
  obtains (failed) e q where "frame routine UNIV UNIV (new_process env) q"
      "run_setup w env = checkWarnings setup_label (setup_catch e q)"
  | (passed) q where "frame routine UNIV UNIV (new_process env) q"
      "run_setup w env = checkWarnings setup_label (saveStates (states q) q)"
proof (cases rule: setup_try_outcome [of w env])
  case (threw e q)
  then have "run_setup w env = checkWarnings setup_label (setup_catch e q)"
    by (simp add: run_setup_def try_catch_def)
  with threw(2) show ?thesis by (rule failed)
next
  case (completed q)
  then have "run_setup w env = checkWarnings setup_label (saveStates (states q) q)"
    by (simp add: run_setup_def try_catch_def)
  with completed(2) show ?thesis by (rule passed)
qed

lemma run_verify_outcome:
  obtains q where "frame routine UNIV UNIV (new_process env) q"
    and "run_verify w env = checkWarnings verify_label (saveStates (states q) q)
         \<or> (\<exists>e. run_verify w env =
               checkWarnings verify_label
                 (saveStates (states (verify_catch e q)) (verify_catch e q)))"
proof (cases "verify_try w (new_process env)")
  case (Pair r q)
  have f: "frame routine UNIV UNIV (new_process env) q"
    using changesD [OF verify_try_changes, of "new_process env" w] Pair by simp
  have "run_verify w env = checkWarnings verify_label (saveStates (states q) q)
         \<or> (\<exists>e. run_verify w env =
               checkWarnings verify_label
                 (saveStates (states (verify_catch e q)) (verify_catch e q)))"
    using Pair by (cases r) (auto simp: run_verify_def try_catch_def Let_def)
  with f show ?thesis by (rule that)
qed

lemma run_setup_counts:
  "warnings (run_setup w env) = length (filter is_ShowWarning (trace (run_setup w env)))"
proof (cases rule: run_setup_outcome [of env w])
  case (failed e q)
  from frame_new_process(1) [OF failed(1)] show ?thesis
    by (simp add: failed(2) checkWarnings_fields setup_catch_fields summary_kinds)
next
  case (passed q)
  from frame_new_process(1) [OF passed(1)] show ?thesis
    by (simp add: passed(2) checkWarnings_fields saveStates_fields summary_kinds save_kinds)
qed

lemma run_verify_counts:
  "warnings (run_verify w env) = length (filter is_ShowWarning (trace (run_verify w env)))"
proof -
  obtain q where f: "frame routine UNIV UNIV (new_process env) q"
    and r: "run_verify w env = checkWarnings verify_label (saveStates (states q) q)
         \<or> (\<exists>e. run_verify w env =
               checkWarnings verify_label
                 (saveStates (states (verify_catch e q)) (verify_catch e q)))"
    by (rule run_verify_outcome)
  from frame_new_process(1) [OF f] r show ?thesis
    by (auto simp: checkWarnings_fields saveStates_fields verify_catch_fields summary_kinds save_kinds)
qed


lemma frame_warn_with: "E (ShowWarning (what @ e)) \<Longrightarrow> frame E KS KT q (warn_with what e q)"
  by (simp add: warn_with_def frame_showWarning)

lemma plain_unsaved: "plain e \<Longrightarrow> unsaved e"
  by (simp add: plain_def unsaved_def)

lemma unsaved_ShowWarning: "unsaved (ShowWarning t)"
  by (simp add: unsaved_def routine_def)

lemma cleanup_report_groups_frame: "frame unsaved {} UNIV p (cleanup_report_groups w p)"
proof -
  have 1: "frame unsaved {} UNIV q
         (try_catch (cleanup_reports w) (warn_with ''Encountered issues generating reports. '') q)" for q
    by (intro frame_try_catch frame_warn_with changes_weaken [OF cleanup_reports_changes])
       (simp_all add: plain_unsaved unsaved_ShowWarning)
  have 2: "frame unsaved {} UNIV q
         (try_catch (cleanup_actual w) (warn_with ''Encountered issues uploading actual files. '') q)" for q
    by (intro frame_try_catch frame_warn_with changes_weaken [OF cleanup_actual_changes])
       (simp_all add: plain_unsaved unsaved_ShowWarning)
  show ?thesis
    unfolding cleanup_report_groups_def
    using frame_trans [OF 1 2] by (simp add: frame_refl)
qed

lemma cleanup_release_frame:
  "frame unsaved {} UNIV q
     (try_catch (cleanup_release w) (warn_with ''Encountered issues updating release. '') q)"
  by (intro frame_try_catch frame_warn_with changes_weaken [OF cleanup_release_changes])
     (simp_all add: plain_unsaved unsaved_ShowWarning)

lemma cleanup_cache_frame:
  "frame routine {} UNIV q
     (try_catch (cleanup_cache w) (warn_with ''Encountered issues saving cache. '') q)"
  by (intro frame_try_catch frame_warn_with changes_weaken [OF cleanup_cache_changes])
     (simp_all add: routine_def)

lemma cleanup_groups_eq:
  "cleanup_groups w p =
     checkWarnings cleanup_label
       (try_catch (cleanup_cache w) (warn_with ''Encountered issues saving cache. '')
          (before_cache w p))"
  by (simp add: cleanup_groups_def before_cache_def Let_def)

lemma before_cache_frame: "frame unsaved {} UNIV p (before_cache w p)"
  unfolding before_cache_def
  by (rule frame_trans [OF cleanup_report_groups_frame cleanup_release_frame])

lemma unsaved_routine: "unsaved e \<Longrightarrow> routine e"
  by (simp add: unsaved_def)

lemma cleanup_groups_frame:
  obtains q where "frame routine {} UNIV p q" and "cleanup_groups w p = checkWarnings cleanup_label q"
proof -
  let ?q = "try_catch (cleanup_cache w) (warn_with ''Encountered issues saving cache. '')
          (before_cache w p)"
  have "frame routine {} UNIV p (before_cache w p)"
    by (rule frame_weaken [OF before_cache_frame]) (simp_all add: unsaved_routine)
  then have "frame routine {} UNIV p ?q"
    using cleanup_cache_frame by (rule frame_trans)
  then show ?thesis
    using cleanup_groups_eq by (rule that)
qed

lemma frame_restored:
  assumes "frame E KS KT (new_process env\<lparr>states := sts\<rparr>) q"
  shows "warnings q = length (filter is_ShowWarning (trace q))"
    and "list_all E (trace q)" and "saved q = Map.empty" and "state_env q = env"
  using assms by (auto simp: frame_def new_process_def)

lemma run_cleanup_outcome:
  obtains (stopped) "run_cleanup w env = new_process env"
      "\<not> (\<exists>sts. restoreStates [] (new_process env) = Inr sts)"
  | (ran) sts q where "restoreStates [] (new_process env) = Inr sts"
      "frame routine {} UNIV (new_process env\<lparr>states := sts\<rparr>) q"
      "run_cleanup w env = checkWarnings cleanup_label q"
proof (cases "restoreStates [] (new_process env)")
  case (Inl m)
  then have "run_cleanup w env = new_process env"
    by (simp add: run_cleanup_def new_process_def)
  then show ?thesis using Inl by (intro stopped) simp_all
next
  case (Inr sts)
  obtain q where q: "frame routine {} UNIV (new_process env\<lparr>states := sts\<rparr>) q"
    "cleanup_groups w (new_process env\<lparr>states := sts\<rparr>) = checkWarnings cleanup_label q"
    by (rule cleanup_groups_frame)
  have "run_cleanup w env = checkWarnings cleanup_label q"
    using Inr q(2) by (simp add: run_cleanup_def new_process_def)
  with Inr q(1) show ?thesis by (rule ran)
qed

lemma run_cleanup_counts:
  "warnings (run_cleanup w env) = length (filter is_ShowWarning (trace (run_cleanup w env)))"
proof (cases rule: run_cleanup_outcome [of w env])
  case stopped
  then show ?thesis by (simp add: new_process_def)
next
  case (ran sts q)
  from frame_restored(1) [OF ran(2)] show ?thesis
    by (simp add: ran(3) checkWarnings_fields summary_kinds)
qed

section \<open>Steps that do not throw\<close>















section \<open>The end of a phase\<close>






section \<open>The count of warnings\<close>

text \<open>
  C2, as the code has it. \<open>showWarning\<close> adds one to the module variable
  \<open>exports.warnings\<close> and writes no state entry; \<open>checkWarnings\<close> reads that variable.
  Every process starts with the count 0, so at the end of each phase the count is the
  number of warnings shown in that same phase, and that is what its summary reports.
  (\<open>incrementWarnings\<close>, which would keep the count in a state entry, is called nowhere.)
\<close>

theorem warnings_counted_in_process:
  "warnings (new_process env) = 0 \<and>
   warnings (showWarning text p) = warnings p + 1 \<and>
   next_env (showWarning text p) = next_env p \<and>
   trace (checkWarnings phase p) = trace p @ summary_events phase (warnings p) \<and>
   warnings (run_setup w env) = length (filter is_ShowWarning (trace (run_setup w env))) \<and>
   warnings (run_verify w env) = length (filter is_ShowWarning (trace (run_verify w env))) \<and>
   warnings (run_cleanup w env) = length (filter is_ShowWarning (trace (run_cleanup w env)))"
  using run_setup_counts [of w env] run_verify_counts [of w env] run_cleanup_counts [of w env]
  by (simp add: new_process_def showWarning_def emit_def next_env_def checkWarnings_fields)

theorem warnings_counted_in_process_witness:
  "warnings (new_process Map.empty) = 0 \<and>
   warnings (showWarning ''Unable to restore cache'' (new_process Map.empty)) =
     warnings (new_process Map.empty) + 1 \<and>
   next_env (showWarning ''Unable to restore cache'' (new_process Map.empty)) =
     next_env (new_process Map.empty) \<and>
   trace (checkWarnings setup_label (new_process Map.empty)) =
     trace (new_process Map.empty) @ summary_events setup_label (warnings (new_process Map.empty)) \<and>
   warnings (run_setup quiet_world Map.empty) =
     length (filter is_ShowWarning (trace (run_setup quiet_world Map.empty))) \<and>
   warnings (run_verify quiet_world Map.empty) =
     length (filter is_ShowWarning (trace (run_verify quiet_world Map.empty))) \<and>
   warnings (run_cleanup quiet_world Map.empty) =
     length (filter is_ShowWarning (trace (run_cleanup quiet_world Map.empty)))"
  by (rule warnings_counted_in_process)

text \<open>
  C2 as stated fails: after one warning in a process, the next process of the run
  starts with the count 0, and its \<open>checkWarnings\<close> reports nothing.
\<close>

theorem warning_not_carried_over:
  "warnings (showWarning ''Unable to restore cache: project-tests-abc123'' (new_process Map.empty)) = 1 \<and>
   warnings (new_process (next_env
      (showWarning ''Unable to restore cache: project-tests-abc123'' (new_process Map.empty)))) = 0 \<and>
   trace (checkWarnings cleanup_label (new_process (next_env
      (showWarning ''Unable to restore cache: project-tests-abc123'' (new_process Map.empty))))) = []"
  by (simp add: showWarning_def emit_def new_process_def next_env_def checkWarnings_def)

section \<open>Saving the cache in cleanup\<close>










end
